theory Spec2Isabelle
  imports Main
begin

section \<open>Critical-CSS inlining: a model of \<open>src/index.js\<close>\<close>

text \<open>
  The class \<open>Critters\<close> of \<open>src/index.js\<close> has three methods: \<open>process\<close>,
  \<open>embedLinkedStylesheet\<close> and \<open>processStyle\<close>. They are embedded here as functions on
  an explicit document. The modules \<open>./dom\<close> and \<open>./css\<close> that \<open>index.js\<close> requires are
  not among the sources: the tree operations are modelled from the capability interface
  of the specification, and the selector engine, the CSS parser and the CSS serializer
  are parameters.
\<close>

subsection \<open>JavaScript strings\<close>

text \<open>
  A string is a list of code units; the model keeps the code units below 256.
  The value \<open>undefined\<close>, where a string is expected, is \<open>None\<close>.
\<close>

definition dquote :: char where "dquote = CHR 0x22"
definition squote :: char where "squote = CHR 0x27"
definition backslash :: char where "backslash = CHR 0x5C"

text \<open>The class \<open>\s\<close> of a regular expression, also what \<open>trim\<close> removes.\<close>

definition is_space :: "char \<Rightarrow> bool" where
  "is_space c = (c \<in> set [CHR 0x09, CHR 0x0A, CHR 0x0B, CHR 0x0C, CHR 0x0D, CHR 0x20, CHR 0xA0])"

definition js_trim :: "string \<Rightarrow> string" where
  "js_trim s = rev (dropWhile is_space (rev (dropWhile is_space s)))"

definition starts_with :: "string \<Rightarrow> string \<Rightarrow> bool" where
  "starts_with p s = (take (length p) s = p)"

text \<open>\<open>s.indexOf(p) !== -1\<close>\<close>

fun is_substring :: "string \<Rightarrow> string \<Rightarrow> bool" where
  "is_substring p [] = (p = [])"
| "is_substring p (c # cs) = (starts_with p (c # cs) \<or> is_substring p cs)"

text \<open>
  \<open>s.replace(p, r)\<close> for a string pattern: the first occurrence only. The one
  replacement text that \<open>index.js\<close> passes holds no \<open>$\<close>, so it is inserted as it is.
\<close>

fun replace_first :: "string \<Rightarrow> string \<Rightarrow> string \<Rightarrow> string" where
  "replace_first p r [] = (if p = [] then r else [])"
| "replace_first p r (c # cs) =
     (if starts_with p (c # cs) then r @ drop (length p) (c # cs)
      else c # replace_first p r cs)"

text \<open>\<open>xs.join(sep)\<close>\<close>

fun js_join :: "string \<Rightarrow> string list \<Rightarrow> string" where
  "js_join sep [] = []"
| "js_join sep [x] = x"
| "js_join sep (x # y # ys) = x @ sep @ js_join sep (y # ys)"

text \<open>\<open>JSON.stringify\<close> of a string.\<close>

definition hex_digit :: "nat \<Rightarrow> char" where
  "hex_digit n = ''0123456789abcdef'' ! (n mod 16)"

definition json_escape :: "char \<Rightarrow> string" where
  "json_escape c =
     (if c = dquote then [backslash, dquote]
      else if c = backslash then [backslash, backslash]
      else if c = CHR 0x08 then [backslash, CHR ''b'']
      else if c = CHR 0x09 then [backslash, CHR ''t'']
      else if c = CHR 0x0A then [backslash, CHR ''n'']
      else if c = CHR 0x0C then [backslash, CHR ''f'']
      else if c = CHR 0x0D then [backslash, CHR ''r'']
      else if (of_char c :: nat) < 32
        then backslash # ''u00'' @ [hex_digit (of_char c div 16), hex_digit (of_char c)]
      else [c])"

definition json_string :: "string \<Rightarrow> string" where
  "json_string s = dquote # concat (map json_escape s) @ [dquote]"

text \<open>
  \<open>JSON.stringify(v)\<close> inside a template literal: \<open>JSON.stringify(undefined)\<close> is
  \<open>undefined\<close>, which the template prints as the text \<open>undefined\<close>.
\<close>

definition stringify_in_template :: "string option \<Rightarrow> string" where
  "stringify_in_template v = (case v of None \<Rightarrow> ''undefined'' | Some s \<Rightarrow> json_string s)"

text \<open>\<open>v || d\<close> for a string or \<open>undefined\<close>: the empty string is falsy.\<close>

definition or_default :: "string option \<Rightarrow> string \<Rightarrow> string" where
  "or_default v d = (case v of None \<Rightarrow> d | Some s \<Rightarrow> if s = [] then d else s)"

definition truthy :: "string option \<Rightarrow> bool" where
  "truthy v = (case v of None \<Rightarrow> False | Some s \<Rightarrow> s \<noteq> [])"

text \<open>The key under which \<open>obj[v]\<close> looks: \<open>undefined\<close> becomes the text \<open>undefined\<close>.\<close>

definition property_key :: "string option \<Rightarrow> string" where
  "property_key v = (case v of None \<Rightarrow> ''undefined'' | Some s \<Rightarrow> s)"

text \<open>\<open>href.match(/^(https?:)?\/\//)\<close>: the match succeeds or is \<open>null\<close>.\<close>

definition is_network_url :: "string \<Rightarrow> bool" where
  "is_network_url h =
     (starts_with ''//'' h \<or> starts_with ''http://'' h \<or> starts_with ''https://'' h)"

subsection \<open>The document\<close>

text \<open>
  Modelled from the spec: the DOM (\<open>./dom\<close> is not among the sources). A node is an
  element (tag name, ordered attributes with unique keys, ordered children) or a text
  node. JavaScript compares nodes by identity: every node carries an identifier,
  \<open>createElement\<close> and \<open>createTextNode\<close> take a fresh one from a counter of the document.
  An element also carries the property \<open>$$name\<close> that \<open>embedLinkedStylesheet\<close> sets.
  Attribute values and text are stored as they are handed over, so both can be
  \<open>undefined\<close>.
\<close>

datatype node =
    Element (nid: nat) (tagName: string) (attribs: "(string \<times> string option) list")
      (dollar_name: "string option") (childNodes: "node list")
  | TextNode (nid: nat) (nodeValue: "string option")

record document =
  roots :: "node list"
  nextId :: nat

datatype error = TypeError | CollaboratorError string

text \<open>The identifiers of a forest, in document order.\<close>

fun ids :: "node list \<Rightarrow> nat list"
  and ids_of :: "node \<Rightarrow> nat list" where
  "ids [] = []"
| "ids (x # xs) = ids_of x @ ids xs"
| "ids_of (Element i t a s cs) = i # ids cs"
| "ids_of (TextNode i d) = [i]"

text \<open>
  The node that an identifier stands for: the first one in document order that carries
  it. In a well-formed document (\<open>wf_doc\<close> below) there is one at most.
\<close>

fun find_node :: "nat \<Rightarrow> node list \<Rightarrow> node option"
  and find_in :: "nat \<Rightarrow> node \<Rightarrow> node option" where
  "find_node i [] = None"
| "find_node i (x # xs) =
     (case find_in i x of Some y \<Rightarrow> Some y | None \<Rightarrow> find_node i xs)"
| "find_in i (Element j t a s cs) =
     (if j = i then Some (Element j t a s cs) else find_node i cs)"
| "find_in i (TextNode j d) = (if j = i then Some (TextNode j d) else None)"

text \<open>
  Modelled from the spec: \<open>querySelectorAll\<close> and \<open>querySelector\<close> of \<open>./dom\<close>, for the
  selectors that \<open>index.js\<close> itself passes (a tag name, and \<open>link[rel="stylesheet"]\<close>):
  the elements that satisfy a test, in document order, and the first of them or
  \<open>null\<close>.
\<close>

fun select_all :: "(node \<Rightarrow> bool) \<Rightarrow> node list \<Rightarrow> nat list"
  and select_in :: "(node \<Rightarrow> bool) \<Rightarrow> node \<Rightarrow> nat list" where
  "select_all P [] = []"
| "select_all P (x # xs) = select_in P x @ select_all P xs"
| "select_in P (Element i t a s cs) =
     (if P (Element i t a s cs) then [i] else []) @ select_all P cs"
| "select_in P (TextNode i d) = []"

definition querySelector_first :: "(node \<Rightarrow> bool) \<Rightarrow> document \<Rightarrow> nat option" where
  "querySelector_first P doc =
     (case select_all P (roots doc) of [] \<Rightarrow> None | i # _ \<Rightarrow> Some i)"

text \<open>
  Modelled from the spec: \<open>insertBefore\<close> of \<open>./dom\<close>, as \<open>index.js\<close> calls it,
  \<open>n.parentNode.insertBefore(new, n.nextSibling)\<close> for the node \<open>n\<close> with identifier
  \<open>l\<close>: the new node becomes the next sibling of \<open>n\<close>.
\<close>

fun insert_after :: "nat \<Rightarrow> node \<Rightarrow> node list \<Rightarrow> node list"
  and insert_in :: "nat \<Rightarrow> node \<Rightarrow> node \<Rightarrow> node" where
  "insert_after l new [] = []"
| "insert_after l new (x # xs) =
     (if nid x = l then insert_in l new x # new # insert_after l new xs
      else insert_in l new x # insert_after l new xs)"
| "insert_in l new (Element i t a s cs) = Element i t a s (insert_after l new cs)"
| "insert_in l new (TextNode i d) = TextNode i d"

text \<open>
  A change to the node with identifier \<open>l\<close>, where it stands in the tree: this is how
  a method of a node that is in the document acts on the document.
\<close>

fun update_node :: "nat \<Rightarrow> (node \<Rightarrow> node) \<Rightarrow> node list \<Rightarrow> node list"
  and update_in :: "nat \<Rightarrow> (node \<Rightarrow> node) \<Rightarrow> node \<Rightarrow> node" where
  "update_node l f [] = []"
| "update_node l f (x # xs) =
     (if nid x = l then f (update_in l f x) # update_node l f xs
      else update_in l f x # update_node l f xs)"
| "update_in l f (Element i t a s cs) = Element i t a s (update_node l f cs)"
| "update_in l f (TextNode i d) = TextNode i d"

text \<open>
  Modelled from the spec: \<open>removeChild\<close> of \<open>./dom\<close>, as \<open>index.js\<close> calls it,
  \<open>n.parentNode.removeChild(n)\<close> for the node \<open>n\<close> with identifier \<open>l\<close>.
\<close>

fun remove_node :: "nat \<Rightarrow> node list \<Rightarrow> node list"
  and remove_in :: "nat \<Rightarrow> node \<Rightarrow> node" where
  "remove_node l [] = []"
| "remove_node l (x # xs) =
     (if nid x = l then remove_node l xs else remove_in l x # remove_node l xs)"
| "remove_in l (Element i t a s cs) = Element i t a s (remove_node l cs)"
| "remove_in l (TextNode i d) = TextNode i d"

text \<open>
  Modelled from the spec: \<open>getAttribute\<close>, \<open>setAttribute\<close> and \<open>removeAttribute\<close> of
  \<open>./dom\<close>. The attributes are an object whose keys are unique and keep the order in
  which they were first set; an attribute that is not there reads as \<open>undefined\<close>.
\<close>

fun set_attr :: "string \<Rightarrow> string option \<Rightarrow> (string \<times> string option) list
    \<Rightarrow> (string \<times> string option) list" where
  "set_attr k v [] = [(k, v)]"
| "set_attr k v ((k', v') # kvs) =
     (if k' = k then (k, v) # kvs else (k', v') # set_attr k v kvs)"

fun getAttribute :: "string \<Rightarrow> node \<Rightarrow> string option" where
  "getAttribute k (Element i t a s cs) =
     (case map_of a k of None \<Rightarrow> None | Some v \<Rightarrow> v)"
| "getAttribute k (TextNode i d) = None"

fun setAttribute :: "string \<Rightarrow> string option \<Rightarrow> node \<Rightarrow> node" where
  "setAttribute k v (Element i t a s cs) = Element i t (set_attr k v a) s cs"
| "setAttribute k v (TextNode i d) = TextNode i d"

fun removeAttribute :: "string \<Rightarrow> node \<Rightarrow> node" where
  "removeAttribute k (Element i t a s cs) =
     Element i t (filter (\<lambda>kv. fst kv \<noteq> k) a) s cs"
| "removeAttribute k (TextNode i d) = TextNode i d"

text \<open>Line 140: \<open>style.$$name = href\<close>.\<close>

fun set_dollar_name :: "string option \<Rightarrow> node \<Rightarrow> node" where
  "set_dollar_name v (Element i t a s cs) = Element i t a v cs"
| "set_dollar_name v (TextNode i d) = TextNode i d"

text \<open>
  Modelled from the spec: \<open>appendChild\<close>, \<open>createElement\<close> and \<open>createTextNode\<close> of
  \<open>./dom\<close>. A new node is in no tree; it takes the next identifier.
\<close>

fun appendChild :: "node \<Rightarrow> node \<Rightarrow> node" where
  "appendChild child (Element i t a s cs) = Element i t a s (cs @ [child])"
| "appendChild child (TextNode i d) = TextNode i d"

definition createElement :: "string \<Rightarrow> document \<Rightarrow> node \<times> document" where
  "createElement tag doc =
     (Element (nextId doc) tag [] None [], doc\<lparr>nextId := Suc (nextId doc)\<rparr>)"

definition createTextNode :: "string option \<Rightarrow> document \<Rightarrow> node \<times> document" where
  "createTextNode text doc =
     (TextNode (nextId doc) text, doc\<lparr>nextId := Suc (nextId doc)\<rparr>)"

definition is_tag :: "string \<Rightarrow> node \<Rightarrow> bool" where
  "is_tag t n = (case n of Element i t' a s cs \<Rightarrow> t' = t | TextNode i d \<Rightarrow> False)"

text \<open>The selector \<open>link[rel="stylesheet"]\<close>.\<close>

definition is_stylesheet_link :: "node \<Rightarrow> bool" where
  "is_stylesheet_link n = (is_tag ''link'' n \<and> getAttribute ''rel'' n = Some ''stylesheet'')"

text \<open>
  \<open>document.body\<close> is the first \<open>body\<close> element, or \<open>null\<close>; \<open>p.appendChild(n)\<close>
  on \<open>null\<close> raises. The node \<open>n\<close> is a new one, in no tree yet.
\<close>

definition append_new :: "nat option \<Rightarrow> node \<Rightarrow> document \<Rightarrow> error + document" where
  "append_new parent n doc =
     (case parent of
        None \<Rightarrow> Inl TypeError
      | Some p \<Rightarrow> Inr (doc\<lparr>roots := update_node p (appendChild n) (roots doc)\<rparr>))"

text \<open>
  \<open>document.body.appendChild(link)\<close> for a link that is in the tree: the spec has the
  link move to the end of the body, so it is detached where it stood.
\<close>

definition move_to_body :: "nat \<Rightarrow> document \<Rightarrow> error + document" where
  "move_to_body link doc =
     (case querySelector_first (is_tag ''body'') doc of
        None \<Rightarrow> Inl TypeError
      | Some b \<Rightarrow>
          (case find_node link (roots doc) of
             None \<Rightarrow> Inl TypeError
           | Some n \<Rightarrow>
               Inr (doc\<lparr>roots := update_node b (appendChild n) (remove_node link (roots doc))\<rparr>)))"

definition insertAfter :: "nat \<Rightarrow> node \<Rightarrow> document \<Rightarrow> document" where
  "insertAfter l new doc = doc\<lparr>roots := insert_after l new (roots doc)\<rparr>"

definition on_node :: "nat \<Rightarrow> (node \<Rightarrow> node) \<Rightarrow> document \<Rightarrow> document" where
  "on_node l f doc = doc\<lparr>roots := update_node l f (roots doc)\<rparr>"

subsection \<open>Options\<close>

text \<open>
  \<open>this.options\<close>. A flag is \<open>Some True\<close>, \<open>Some False\<close> or anything else (\<open>None\<close>):
  the code compares with \<open>=== true\<close> and \<open>!== false\<close> only. \<open>preload\<close> is \<open>false\<close>, a
  string or anything else. \<open>urlFilter\<close> is the predicate that the constructor makes of
  \<open>options.filter\<close>; it is applied to the \<open>href\<close> attribute, which can be \<open>undefined\<close>.
\<close>

datatype preload_option = PreloadUnset | PreloadFalse | PreloadStr string

record options =
  external :: "bool option"
  preload :: preload_option
  noscriptFallback :: "bool option"
  inlineFonts :: "bool option"
  preloadFonts :: "bool option"
  fonts :: "bool option"
  compress :: "bool option"
  urlFilter :: "(string option \<Rightarrow> bool) option"

definition default_options :: options where
  "default_options = \<lparr>external = None, preload = PreloadUnset, noscriptFallback = None,
     inlineFonts = None, preloadFonts = None, fonts = None, compress = None,
     urlFilter = None\<rparr>"

subsection \<open>\<open>embedLinkedStylesheet\<close>\<close>

text \<open>Line 125, and lines 126 to 132 for the lazy loader.\<close>

definition loader_source :: string where
  "loader_source = ''function $loadcss(u,m,l){(l=document.createElement('link')).rel='stylesheet';l.href=u;document.head.appendChild(l)}''"

definition cssLoaderPreamble :: "bool \<Rightarrow> string" where
  "cssLoaderPreamble lazy =
     (if lazy
      then replace_first ''l.href''
             ''l.media='only x';l.onload=function(){l.media=m};l.href'' loader_source
      else loader_source)"

text \<open>
  Line 121: \<open>this.urlFilter ? this.urlFilter(href) : href.match(...)\<close>. Without a filter,
  \<open>href.match\<close> on a link that has no \<open>href\<close> raises.
\<close>

definition skip_link :: "options \<Rightarrow> string option \<Rightarrow> error + bool" where
  "skip_link opts href =
     (case urlFilter opts of
        Some f \<Rightarrow> Inr (f href)
      | None \<Rightarrow> (case href of None \<Rightarrow> Inl TypeError | Some h \<Rightarrow> Inr (is_network_url h)))"

text \<open>
  Lines 135 to 140: the new \<open>style\<close> element with the sheet as its text, inserted after
  the link, then tagged with the URL. The sheet of a URL that \<open>cssFiles\<close> does not hold
  is \<open>undefined\<close>.
\<close>

definition inline_sheet :: "nat \<Rightarrow> string option \<Rightarrow> string option \<Rightarrow> document \<Rightarrow> document" where
  "inline_sheet link href sheet doc =
     (let (style, d1) = createElement ''style'' doc;
          (text, d2) = createTextNode sheet d1;
          d3 = insertAfter link (appendChild text style) d2
      in on_node (nid style) (set_dollar_name href) d3)"

text \<open>Lines 153 to 158: the script of the strategies \<open>js\<close> and \<open>js-lazy\<close>.\<close>

definition loader_call :: "bool \<Rightarrow> string option \<Rightarrow> string option \<Rightarrow> string" where
  "loader_call lazy href media =
     cssLoaderPreamble lazy @ ''$loadcss('' @ stringify_in_template href
       @ (if lazy then '','' @ json_string (or_default media ''all'') else [])
       @ '')''"

definition insert_script :: "nat \<Rightarrow> string \<Rightarrow> document \<Rightarrow> document" where
  "insert_script link js doc =
     (let (script, d1) = createElement ''script'' doc;
          (text, d2) = createTextNode (Some js) d1
      in insertAfter link (appendChild text script) d2)"

text \<open>Lines 172 to 176: the second link of the default strategy.\<close>

definition append_body_link :: "string option \<Rightarrow> string option \<Rightarrow> document \<Rightarrow> error + document" where
  "append_body_link href media doc =
     (let (bodyLink, d1) = createElement ''link'' doc;
          l1 = setAttribute ''rel'' (Some ''stylesheet'') bodyLink;
          l2 = (if truthy media then setAttribute ''media'' media l1 else l1);
          l3 = setAttribute ''href'' href l2
      in append_new (querySelector_first (is_tag ''body'') d1) l3 d1)"

text \<open>Lines 181 to 187.\<close>

definition insert_noscript :: "nat \<Rightarrow> string option \<Rightarrow> string option \<Rightarrow> document \<Rightarrow> document" where
  "insert_noscript link href media doc =
     (let (noscript, d1) = createElement ''noscript'' doc;
          (noscriptLink, d2) = createElement ''link'' d1;
          l1 = setAttribute ''rel'' (Some ''stylesheet'') noscriptLink;
          l2 = setAttribute ''href'' href l1;
          l3 = (if truthy media then setAttribute ''media'' media l2 else l2)
      in insertAfter link (appendChild l3 noscript) d2)"

text \<open>
  Lines 145 to 188: the strategy that \<open>options.preload\<close> selects, then the
  \<open>noscript\<close> fallback. The result of the first component is the local variable
  \<open>noscriptFallback\<close>. The assignment \<open>cssLoaderPreamble = ""\<close> of line 159 is to a
  variable of this call that is not read again: it has no counterpart here.
\<close>

definition apply_strategy :: "preload_option \<Rightarrow> nat \<Rightarrow> string option \<Rightarrow> string option
    \<Rightarrow> document \<Rightarrow> error + (bool \<times> document)" where
  "apply_strategy preloadMode link href media doc =
     (if preloadMode = PreloadStr ''body'' then
        (case move_to_body link doc of Inl e \<Rightarrow> Inl e | Inr d \<Rightarrow> Inr (False, d))
      else
        (let d1 = on_node link (setAttribute ''rel'' (Some ''preload'')) doc;
             d2 = on_node link (setAttribute ''as'' (Some ''style'')) d1
         in if preloadMode = PreloadStr ''js'' \<or> preloadMode = PreloadStr ''js-lazy'' then
              Inr (True,
                insert_script link (loader_call (preloadMode = PreloadStr ''js-lazy'') href media) d2)
            else if preloadMode = PreloadStr ''media'' then
              (let d3 = on_node link (setAttribute ''rel'' (Some ''stylesheet'')) d2;
                   d4 = on_node link (removeAttribute ''as'') d3;
                   d5 = on_node link (setAttribute ''media'' (Some ''only x'')) d4;
                   d6 = on_node link (setAttribute ''onload''
                          (Some (''this.media='' @ [squote] @ or_default media ''all'' @ [squote]))) d5
               in Inr (True, d6))
            else if preloadMode = PreloadStr ''swap'' then
              Inr (True,
                on_node link (setAttribute ''onload'' (Some (''this.rel='stylesheet'' @ [squote]))) d2)
            else
              (case append_body_link href media d2 of
                 Inl e \<Rightarrow> Inl e | Inr d \<Rightarrow> Inr (False, d))))"

text \<open>
  Lines 111 to 189. The link is given by its identifier in the document, as \<open>process\<close>
  passes it. A node that is in no document has no \<open>parentNode\<close>, on which line 137
  raises: an identifier that the document does not hold raises here.
\<close>

definition embedLinkedStylesheet :: "options \<Rightarrow> (string \<rightharpoonup> string) \<Rightarrow> nat \<Rightarrow> document
    \<Rightarrow> error + document" where
  "embedLinkedStylesheet opts cssFiles link doc =
     (case find_node link (roots doc) of
        None \<Rightarrow> Inl TypeError
      | Some l \<Rightarrow>
          (let href = getAttribute ''href'' l;
               media = getAttribute ''media'' l;
               sheet = cssFiles (property_key href);
               preloadMode = preload opts
           in case skip_link opts href of
                Inl e \<Rightarrow> Inl e
              | Inr True \<Rightarrow> Inr doc
              | Inr False \<Rightarrow>
                  (let d1 = inline_sheet link href sheet doc
                   in if preloadMode = PreloadFalse then Inr d1
                      else
                        (case apply_strategy preloadMode link href media d1 of
                           Inl e \<Rightarrow> Inl e
                         | Inr (noscriptFallback', d2) \<Rightarrow>
                             if noscriptFallback opts \<noteq> Some False \<and> noscriptFallback'
                             then Inr (insert_noscript link href media d2)
                             else Inr d2))))"

subsection \<open>Regular expressions of \<open>processStyle\<close>\<close>

definition is_letter :: "char \<Rightarrow> bool" where
  "is_letter c = (let n = (of_char c :: nat) in (97 \<le> n \<and> n \<le> 122) \<or> (65 \<le> n \<and> n \<le> 90))"

definition is_digit :: "char \<Rightarrow> bool" where
  "is_digit c = (let n = (of_char c :: nat) in 48 \<le> n \<and> n \<le> 57)"

text \<open>\<open>[a-z-]\<close> under the flag \<open>i\<close>.\<close>

definition is_name_char :: "char \<Rightarrow> bool" where
  "is_name_char c = (is_letter c \<or> c = CHR ''-'')"

text \<open>\<open>[.[#~&^:*]|\s|\n\<close>\<close>

definition is_terminator :: "char \<Rightarrow> bool" where
  "is_terminator c = (c \<in> set ''.[#~&^:*'' \<or> is_space c)"

text \<open>
  Line 222, \<open>/::?(?:[a-z-]+)([.[#~&^:*]|\s|\n|$)/gi\<close> at the head of a string: the
  length of the match and its group 1. One or two colons, the longest run of name
  characters (a shorter run is followed by a name character, which ends no match),
  then one terminator, or the end of the string.
\<close>

definition pseudo_match :: "string \<Rightarrow> (nat \<times> string) option" where
  "pseudo_match s =
     (case s of
        [] \<Rightarrow> None
      | c # cs \<Rightarrow>
          if c \<noteq> CHR '':'' then None
          else
            (let colons = (if starts_with '':'' cs then 2 else 1);
                 rest = drop colons s;
                 name = takeWhile is_name_char rest;
                 after = dropWhile is_name_char rest
             in if name = [] then None
                else
                  (case after of
                     [] \<Rightarrow> Some (colons + length name, [])
                   | t # _ \<Rightarrow>
                       if is_terminator t then Some (colons + length name + 1, [t])
                       else None)))"

text \<open>
  \<open>sel.replace(..., "$1")\<close> with the flag \<open>g\<close>: from left to right, a match is replaced
  by its group 1 and the search goes on after it; a character where no match starts is
  copied. The first argument counts the characters of a match still to pass over.
\<close>

fun strip_from :: "nat \<Rightarrow> string \<Rightarrow> string" where
  "strip_from n [] = []"
| "strip_from (Suc n) (c # cs) = strip_from n cs"
| "strip_from 0 (c # cs) =
     (case pseudo_match (c # cs) of
        Some (len, group1) \<Rightarrow> group1 @ strip_from (len - 1) cs
      | None \<Rightarrow> c # strip_from 0 cs)"

definition strip_pseudo :: "string \<Rightarrow> string" where
  "strip_pseudo sel = strip_from 0 sel"

text \<open>Line 233, \<open>/\bfont\b/i\<close>: the word \<open>font\<close> between two word boundaries.\<close>

definition is_word_char :: "char \<Rightarrow> bool" where
  "is_word_char c = (is_letter c \<or> is_digit c \<or> c = CHR ''_'')"

definition lower :: "char \<Rightarrow> char" where
  "lower c = (let n = (of_char c :: nat) in if 65 \<le> n \<and> n \<le> 90 then char_of (n + 32) else c)"

fun font_word_from :: "bool \<Rightarrow> string \<Rightarrow> bool" where
  "font_word_from after_word [] = False"
| "font_word_from after_word (c # cs) =
     ((\<not> after_word \<and> map lower (take 4 (c # cs)) = ''font''
        \<and> (case drop 4 (c # cs) of [] \<Rightarrow> True | d # _ \<Rightarrow> \<not> is_word_char d))
      \<or> font_word_from (is_word_char c) cs)"

definition names_font :: "string \<Rightarrow> bool" where
  "names_font property = font_word_from False property"

text \<open>
  Line 262, \<open>/url\s*\(\s*(['"]?)(.+?)\1\s*\)/\<close>: group 2 of the first match, or
  \<open>undefined\<close>. The matcher backtracks in this order: the white space after the
  parenthesis from the longest run down, the quote before no quote, the body from one
  character up. The body holds no line terminator.
\<close>

definition is_line_terminator :: "char \<Rightarrow> bool" where
  "is_line_terminator c = (c = CHR 0x0A \<or> c = CHR 0x0D)"

definition closes :: "string \<Rightarrow> string \<Rightarrow> bool" where
  "closes quote s =
     (starts_with quote s \<and> starts_with '')'' (dropWhile is_space (drop (length quote) s)))"

fun lazy_body :: "string \<Rightarrow> string \<Rightarrow> string \<Rightarrow> string option" where
  "lazy_body quote body [] = None"
| "lazy_body quote body (c # cs) =
     (if is_line_terminator c then None
      else if closes quote cs then Some (body @ [c])
      else lazy_body quote (body @ [c]) cs)"

definition quoted_body :: "string \<Rightarrow> string option" where
  "quoted_body s =
     (case s of
        [] \<Rightarrow> None
      | c # cs \<Rightarrow>
          if c = squote \<or> c = dquote
          then (case lazy_body [c] [] cs of Some b \<Rightarrow> Some b | None \<Rightarrow> lazy_body [] [] s)
          else lazy_body [] [] s)"

fun spaces_then_body :: "nat \<Rightarrow> string \<Rightarrow> string option" where
  "spaces_then_body 0 s = quoted_body s"
| "spaces_then_body (Suc k) s =
     (case quoted_body (drop (Suc k) s) of
        Some b \<Rightarrow> Some b
      | None \<Rightarrow> spaces_then_body k s)"

definition url_at :: "string \<Rightarrow> string option" where
  "url_at s =
     (if starts_with ''url'' s then
        (case dropWhile is_space (drop 3 s) of
           [] \<Rightarrow> None
         | c # rest \<Rightarrow>
             if c = CHR ''('' then spaces_then_body (length (takeWhile is_space rest)) rest
             else None)
      else None)"

fun url_match :: "string \<Rightarrow> string option" where
  "url_match [] = None"
| "url_match (c # cs) =
     (case url_at (c # cs) of Some b \<Rightarrow> Some b | None \<Rightarrow> url_match cs)"

subsection \<open>The stylesheet\<close>

text \<open>
  Modelled from the spec: the stylesheet AST that \<open>parseStylesheet\<close> of \<open>./css\<close>
  returns (\<open>./css\<close> is not among the sources). A rule is a style rule (\<open>type\<close> is \<open>rule\<close>: selectors and
  declarations), a font-face rule (\<open>type\<close> is \<open>font-face\<close>: declarations), a container
  (it has \<open>rules\<close>), or any other rule, which has neither selectors nor \<open>rules\<close>.
\<close>

record css_declaration =
  property :: string
  val :: string

datatype rule =
    StyleRule "string list" "css_declaration list"
  | FontFaceRule "css_declaration list"
  | ContainerRule "rule list"
  | OtherRule string

text \<open>
  Modelled from the spec: \<open>walkStyleRules(ast, iterator)\<close> of \<open>./css\<close>. One pass from
  top to bottom; the rules nested in a container are walked before the iterator sees
  the container; a rule stays unless the iterator returns \<open>false\<close>. The iterator
  changes the rule it is given and the variables it closes over, and it can raise:
  here it returns the rule, whether it stays, and the new state.
\<close>

type_synonym 's iterator = "rule \<Rightarrow> 's \<Rightarrow> error + (rule \<times> bool \<times> 's)"

fun walkStyleRules :: "'s iterator \<Rightarrow> rule list \<Rightarrow> 's \<Rightarrow> error + (rule list \<times> 's)"
  and walk_nested :: "'s iterator \<Rightarrow> rule \<Rightarrow> 's \<Rightarrow> error + (rule \<times> 's)" where
  "walkStyleRules it [] s = Inr ([], s)"
| "walkStyleRules it (r # rs) s =
     (case walk_nested it r s of
        Inl e \<Rightarrow> Inl e
      | Inr (r1, s1) \<Rightarrow>
          (case it r1 s1 of
             Inl e \<Rightarrow> Inl e
           | Inr (r2, keep, s2) \<Rightarrow>
               (case walkStyleRules it rs s2 of
                  Inl e \<Rightarrow> Inl e
                | Inr (rs', s3) \<Rightarrow> Inr ((if keep then [r2] else []) @ rs', s3))))"
| "walk_nested it (ContainerRule rs) s =
     (case walkStyleRules it rs s of
        Inl e \<Rightarrow> Inl e
      | Inr (rs', s') \<Rightarrow> Inr (ContainerRule rs', s'))"
| "walk_nested it (StyleRule sels decls) s = Inr (StyleRule sels decls, s)"
| "walk_nested it (FontFaceRule decls) s = Inr (FontFaceRule decls, s)"
| "walk_nested it (OtherRule t) s = Inr (OtherRule t, s)"

subsection \<open>Collaborators\<close>

text \<open>
  \<open>document.querySelector(sel, document)\<close> for the selectors of a stylesheet is the
  selector engine of the DOM: the first element that matches, \<open>null\<close>, or an error.
  \<open>parseStylesheet\<close> can raise; \<open>serializeStylesheet\<close> takes the flag \<open>compress\<close>.
\<close>

record collaborators =
  querySelector :: "document \<Rightarrow> string \<Rightarrow> error + nat option"
  parseStylesheet :: "string \<Rightarrow> error + rule list"
  serializeStylesheet :: "rule list \<Rightarrow> bool \<Rightarrow> string"

subsection \<open>\<open>processStyle\<close>\<close>

text \<open>Lines 219 to 224: \<open>rule.selectors.filter(...)\<close>, whose callback can raise.\<close>

fun filter_selectors :: "(string \<Rightarrow> error + nat option) \<Rightarrow> string list \<Rightarrow> error + string list" where
  "filter_selectors q [] = Inr []"
| "filter_selectors q (sel # sels) =
     (case q (strip_pseudo sel) of
        Inl e \<Rightarrow> Inl e
      | Inr found \<Rightarrow>
          (case filter_selectors q sels of
             Inl e \<Rightarrow> Inl e
           | Inr kept \<Rightarrow> Inr (if found \<noteq> None then sel # kept else kept)))"

text \<open>Lines 230 to 237.\<close>

fun collect_fonts :: "css_declaration list \<Rightarrow> string \<Rightarrow> string" where
  "collect_fonts [] criticalFonts = criticalFonts"
| "collect_fonts (decl # decls) criticalFonts =
     collect_fonts decls
       (if names_font (property decl) then criticalFonts @ '' '' @ val decl else criticalFonts)"

text \<open>Lines 216 to 245: the iterator of the first walk; its state is \<open>criticalFonts\<close>.\<close>

fun prune_rule :: "(string \<Rightarrow> error + nat option) \<Rightarrow> string iterator" where
  "prune_rule q (StyleRule sels decls) criticalFonts =
     (case filter_selectors q sels of
        Inl e \<Rightarrow> Inl e
      | Inr kept \<Rightarrow>
          if kept = [] then Inr (StyleRule kept decls, False, criticalFonts)
          else Inr (StyleRule kept decls, True, collect_fonts decls criticalFonts))"
| "prune_rule q (FontFaceRule decls) criticalFonts = Inr (FontFaceRule decls, True, criticalFonts)"
| "prune_rule q (ContainerRule rs) criticalFonts = Inr (ContainerRule rs, rs \<noteq> [], criticalFonts)"
| "prune_rule q (OtherRule t) criticalFonts = Inr (OtherRule t, True, criticalFonts)"

text \<open>Lines 247 to 250.\<close>

definition shouldPreloadFonts :: "options \<Rightarrow> bool" where
  "shouldPreloadFonts opts = (fonts opts = Some True \<or> preloadFonts opts = Some True)"

definition shouldInlineFonts :: "options \<Rightarrow> bool" where
  "shouldInlineFonts opts = (fonts opts \<noteq> Some False \<or> inlineFonts opts = Some True)"

text \<open>Lines 257 to 266: the pair \<open>(family, src)\<close> after the loop over the declarations.\<close>

fun font_info :: "css_declaration list \<Rightarrow> string option \<times> string option
    \<Rightarrow> string option \<times> string option" where
  "font_info [] fs = fs"
| "font_info (decl # decls) (family, src) =
     font_info decls
       (if property decl = ''src'' then (family, url_match (val decl))
        else if property decl = ''font-family'' then (Some (val decl), src)
        else (family, src))"

text \<open>Lines 270 to 277.\<close>

definition append_preload :: "nat option \<Rightarrow> string \<Rightarrow> document \<Rightarrow> error + document" where
  "append_preload head src doc =
     (let (preload, d1) = createElement ''link'' doc;
          l1 = setAttribute ''rel'' (Some ''preload'') preload;
          l2 = setAttribute ''as'' (Some ''font'') l1;
          l3 = (if is_substring ''://'' src
                then setAttribute ''crossorigin'' (Some ''anonymous'') l2 else l2);
          l4 = setAttribute ''href'' (Some (js_trim src)) l3
      in append_new head l4 d1)"

text \<open>
  Lines 253 to 288: the iterator of the second walk; its state is the document and
  \<open>preloadedFonts\<close>. \<open>head\<close> is the element found at line 197, or \<open>null\<close>.
  \<open>keep\<close> is false where line 287 returns \<open>false\<close>: \<open>family\<close> is \<open>undefined\<close> or
  empty, \<open>src\<close> is \<open>undefined\<close>, \<open>criticalFonts\<close> does not hold \<open>family\<close>, or
  inlining is off.
\<close>

fun font_rule :: "options \<Rightarrow> nat option \<Rightarrow> string \<Rightarrow> (document \<times> string list) iterator" where
  "font_rule opts head criticalFonts (FontFaceRule decls) (doc, preloadedFonts) =
     (let (family, src) = font_info decls (None, None);
          keep = (case family of
                    None \<Rightarrow> False
                  | Some name \<Rightarrow>
                      \<not> (name = [] \<or> \<not> truthy src \<or> \<not> is_substring name criticalFonts
                         \<or> \<not> shouldInlineFonts opts))
      in case src of
           Some u \<Rightarrow>
             if u \<noteq> [] \<and> shouldPreloadFonts opts \<and> u \<notin> set preloadedFonts then
               (case append_preload head u doc of
                  Inl e \<Rightarrow> Inl e
                | Inr d \<Rightarrow> Inr (FontFaceRule decls, keep, (d, preloadedFonts @ [u])))
             else Inr (FontFaceRule decls, keep, (doc, preloadedFonts))
         | None \<Rightarrow> Inr (FontFaceRule decls, keep, (doc, preloadedFonts)))"
| "font_rule opts head criticalFonts r (doc, preloadedFonts) = Inr (r, True, (doc, preloadedFonts))"

text \<open>Line 202: \<open>node.nodeValue\<close>, and what \<open>join\<close> prints for it.\<close>

fun node_text :: "node \<Rightarrow> string" where
  "node_text (TextNode i d) = (case d of None \<Rightarrow> [] | Some s \<Rightarrow> s)"
| "node_text (Element i t a s cs) = []"

fun set_children :: "node list \<Rightarrow> node \<Rightarrow> node" where
  "set_children cs' (Element i t a s cs) = Element i t a s cs'"
| "set_children cs' (TextNode i d) = TextNode i d"

text \<open>
  Lines 210 to 292: the critical CSS of a sheet, with the document after the preload
  links of the second walk.
\<close>

definition reduce_sheet :: "collaborators \<Rightarrow> options \<Rightarrow> string \<Rightarrow> document
    \<Rightarrow> error + (string \<times> document)" where
  "reduce_sheet c opts sheet doc =
     (case parseStylesheet c sheet of
        Inl e \<Rightarrow> Inl e
      | Inr ast \<Rightarrow>
          (case walkStyleRules (prune_rule (querySelector c doc)) ast [] of
             Inl e \<Rightarrow> Inl e
           | Inr (ast1, criticalFonts) \<Rightarrow>
               (case walkStyleRules
                       (font_rule opts (querySelector_first (is_tag ''head'') doc) criticalFonts)
                       ast1 (doc, []) of
                  Inl e \<Rightarrow> Inl e
                | Inr (ast2, (d, preloadedFonts)) \<Rightarrow>
                    Inr (serializeStylesheet c ast2 (compress opts \<noteq> Some False), d))))"

text \<open>
  Lines 194 to 306. The \<open>style\<close> element is given by its identifier; it is in the
  document, so it has a \<open>parentNode\<close>. The loop of lines 301 to 303 removes every child.
\<close>

definition processStyle :: "collaborators \<Rightarrow> options \<Rightarrow> nat \<Rightarrow> document \<Rightarrow> error + document" where
  "processStyle c opts style doc =
     (case find_node style (roots doc) of
        None \<Rightarrow> Inl TypeError
      | Some (TextNode i d) \<Rightarrow> Inl TypeError
      | Some (Element i t a s children) \<Rightarrow>
          (let sheet = (if children \<noteq> [] then js_join [CHR 0x0A] (map node_text children) else [])
           in if children = [] \<or> sheet = [] then Inr doc
              else
                (case reduce_sheet c opts sheet doc of
                   Inl e \<Rightarrow> Inl e
                 | Inr (out, d1) \<Rightarrow>
                     if js_trim out = [] then Inr (d1\<lparr>roots := remove_node style (roots d1)\<rparr>)
                     else
                       (let (text, d2) = createTextNode (Some out) d1
                        in Inr (on_node style (set_children [text]) d2)))))"

subsection \<open>\<open>process\<close>\<close>

text \<open>
  \<open>Promise.all(nodes.map(task))\<close>: neither task awaits, so each runs to its end when
  \<open>map\<close> calls it, in the order of the list. A task that raises rejects its promise,
  and \<open>process\<close> is rejected with the first such error; no document is returned then.
\<close>

fun run_all :: "(nat \<Rightarrow> document \<Rightarrow> error + document) \<Rightarrow> nat list \<Rightarrow> document \<Rightarrow> error + document" where
  "run_all task [] doc = Inr doc"
| "run_all task (n # ns) doc =
     (case task n doc of Inl e \<Rightarrow> Inl e | Inr d \<Rightarrow> run_all task ns d)"

text \<open>
  Lines 86 to 106, between \<open>createDocument\<close> and \<open>serializeDocument\<close>: from the parsed
  document to the document that is serialized.
\<close>

definition process :: "collaborators \<Rightarrow> options \<Rightarrow> (string \<rightharpoonup> string) \<Rightarrow> document
    \<Rightarrow> error + document" where
  "process c opts cssFiles doc =
     (case (if external opts \<noteq> Some False
            then run_all (embedLinkedStylesheet opts cssFiles)
                   (select_all is_stylesheet_link (roots doc)) doc
            else Inr doc) of
        Inl e \<Rightarrow> Inl e
      | Inr d \<Rightarrow> run_all (processStyle c opts) (select_all (is_tag ''style'') (roots d)) d)"

subsection \<open>Vocabulary of the statements\<close>

text \<open>
  A document is well formed when no two of its nodes share an identifier and the
  counter is beyond all of them: this is what \<open>createDocument\<close> hands over, and what
  makes an identifier stand for one node.
\<close>

definition wf_doc :: "document \<Rightarrow> bool" where
  "wf_doc doc = (distinct (ids (roots doc)) \<and> (\<forall>i \<in> set (ids (roots doc)). i < nextId doc))"

text \<open>
  The place of a list of siblings in a document: at the top, or as the children of an
  element that has siblings to its left and to its right and a place of its own.
  \<open>plug\<close> puts a list of siblings at a place and gives the whole document back.
\<close>

datatype position =
    Top
  | Inside nat string "(string \<times> string option) list" "string option"
      "node list" position "node list"

fun plug :: "position \<Rightarrow> node list \<Rightarrow> node list" where
  "plug Top xs = xs"
| "plug (Inside i t a s left p right) xs = plug p (left @ Element i t a s xs # right)"

fun position_ids :: "position \<Rightarrow> nat list" where
  "position_ids Top = []"
| "position_ids (Inside i t a s left p right) = i # ids left @ ids right @ position_ids p"

text \<open>
  The Selector Matcher of the specification: a selector matches when the engine finds
  an element for the selector without its pseudo-classes and pseudo-elements.
\<close>

definition selector_found :: "(string \<Rightarrow> error + nat option) \<Rightarrow> string \<Rightarrow> bool" where
  "selector_found q sel =
     (case q (strip_pseudo sel) of Inl e \<Rightarrow> False | Inr None \<Rightarrow> False | Inr (Some i) \<Rightarrow> True)"

definition engine_answers :: "(string \<Rightarrow> error + nat option) \<Rightarrow> string \<Rightarrow> bool" where
  "engine_answers q sel = (case q (strip_pseudo sel) of Inl e \<Rightarrow> False | Inr found \<Rightarrow> True)"

text \<open>The selectors of a stylesheet, in the order of the walk.\<close>

fun all_selectors :: "rule list \<Rightarrow> string list"
  and rule_selectors :: "rule \<Rightarrow> string list" where
  "all_selectors [] = []"
| "all_selectors (r # rs) = rule_selectors r @ all_selectors rs"
| "rule_selectors (StyleRule sels decls) = sels"
| "rule_selectors (FontFaceRule decls) = []"
| "rule_selectors (ContainerRule rs) = all_selectors rs"
| "rule_selectors (OtherRule t) = []"

text \<open>
  The Rule Pruner in the words of the specification, section 4.2, for a test \<open>m\<close> on
  selectors: a style rule keeps the selectors that match, in their order, and is
  deleted when none is left; a font-face rule is left as it is; a container is pruned
  inside first and is deleted when it has become empty.
\<close>

fun pruned :: "(string \<Rightarrow> bool) \<Rightarrow> rule list \<Rightarrow> rule list"
  and pruned_rule :: "(string \<Rightarrow> bool) \<Rightarrow> rule \<Rightarrow> rule option" where
  "pruned m [] = []"
| "pruned m (r # rs) =
     (case pruned_rule m r of None \<Rightarrow> pruned m rs | Some r' \<Rightarrow> r' # pruned m rs)"
| "pruned_rule m (StyleRule sels decls) =
     (if filter m sels = [] then None else Some (StyleRule (filter m sels) decls))"
| "pruned_rule m (FontFaceRule decls) = Some (FontFaceRule decls)"
| "pruned_rule m (ContainerRule rs) =
     (if pruned m rs = [] then None else Some (ContainerRule (pruned m rs)))"
| "pruned_rule m (OtherRule t) = Some (OtherRule t)"

text \<open>
  The invariant of the data model for a pruned sheet: every style rule has a selector
  and all its selectors match; every container has a nested rule.
\<close>

fun well_pruned :: "(string \<Rightarrow> bool) \<Rightarrow> rule list \<Rightarrow> bool"
  and rule_retained :: "(string \<Rightarrow> bool) \<Rightarrow> rule \<Rightarrow> bool" where
  "well_pruned m [] = True"
| "well_pruned m (r # rs) = (rule_retained m r \<and> well_pruned m rs)"
| "rule_retained m (StyleRule sels decls) = (sels \<noteq> [] \<and> list_all m sels)"
| "rule_retained m (FontFaceRule decls) = True"
| "rule_retained m (ContainerRule rs) = (rs \<noteq> [] \<and> well_pruned m rs)"
| "rule_retained m (OtherRule t) = True"

text \<open>The text of a \<open>style\<close> element as line 202 reads it.\<close>

definition style_text :: "node list \<Rightarrow> string" where
  "style_text children = js_join [CHR 0x0A] (map node_text children)"

text \<open>
  The Font Critical Analyzer in the words of the specification, section 4.3: the
  \<open>src\<close> URLs that the second walk extracts, in the order of the walk, one for each
  font-face rule that has one.
\<close>

fun font_srcs :: "rule list \<Rightarrow> string list"
  and rule_srcs :: "rule \<Rightarrow> string list" where
  "font_srcs [] = []"
| "font_srcs (r # rs) = rule_srcs r @ font_srcs rs"
| "rule_srcs (StyleRule sels decls) = []"
| "rule_srcs (FontFaceRule decls) =
     (case snd (font_info decls (None, None)) of
        None \<Rightarrow> []
      | Some u \<Rightarrow> if u \<noteq> [] then [u] else [])"
| "rule_srcs (ContainerRule rs) = font_srcs rs"
| "rule_srcs (OtherRule t) = []"

text \<open>
  Deduplication by the exact URL string: of a list of URLs, those that are not among
  the URLs seen so far, each once, where it occurs first.
\<close>

fun new_urls :: "string list \<Rightarrow> string list \<Rightarrow> string list" where
  "new_urls seen [] = []"
| "new_urls seen (u # us) =
     (if u \<in> set seen then new_urls seen us else u # new_urls (seen @ [u]) us)"

definition first_occurrences :: "string list \<Rightarrow> string list" where
  "first_occurrences us = new_urls [] us"

text \<open>The preload link of a font URL, and the links of a list of URLs.\<close>

definition preload_link :: "nat \<Rightarrow> string \<Rightarrow> node" where
  "preload_link i u =
     Element i ''link''
       ([(''rel'', Some ''preload''), (''as'', Some ''font'')]
        @ (if is_substring ''://'' u then [(''crossorigin'', Some ''anonymous'')] else [])
        @ [(''href'', Some (js_trim u))])
       None []"

definition preload_links :: "nat \<Rightarrow> string list \<Rightarrow> node list" where
  "preload_links n us = map (\<lambda>(i, u). preload_link i u) (enumerate n us)"

text \<open>
  The state of the second walk, for the proofs: the children of \<open>head\<close>, the counter
  of the document, and \<open>preloadedFonts\<close>; and how a list of extracted URLs advances it.
\<close>

fun advance :: "node list \<times> nat \<times> string list \<Rightarrow> string list \<Rightarrow> node list \<times> nat \<times> string list" where
  "advance (cs, n, seen) us =
     (cs @ preload_links n (new_urls seen us), n + length (new_urls seen us),
      seen @ new_urls seen us)"

fun head_state :: "(node list \<Rightarrow> node list) \<Rightarrow> node list \<times> nat \<times> string list
    \<Rightarrow> document \<times> string list" where
  "head_state around (cs, n, seen) = (\<lparr>roots = around cs, nextId = n\<rparr>, seen)"

fun head_free :: "nat \<Rightarrow> node list \<times> nat \<times> string list \<Rightarrow> bool" where
  "head_free h (cs, n, seen) = (h \<notin> set (ids cs) \<and> h < n)"

subsection \<open>Collaborators of the examples\<close>

text \<open>
  A selector engine for tag names: the first element with that tag name, \<open>null\<close> when
  there is none, and an error for the empty selector, which no selector grammar accepts.
\<close>

definition tag_engine :: "document \<Rightarrow> string \<Rightarrow> error + nat option" where
  "tag_engine doc sel =
     (if sel = [] then Inl (CollaboratorError ''empty selector'')
      else Inr (querySelector_first (is_tag sel) doc))"

text \<open>A serializer: rules one after the other, without white space.\<close>

definition declaration_text :: "css_declaration \<Rightarrow> string" where
  "declaration_text d = property d @ '':'' @ val d"

fun rules_text :: "rule list \<Rightarrow> string"
  and rule_text :: "rule \<Rightarrow> string" where
  "rules_text [] = []"
| "rules_text (r # rs) = rule_text r @ rules_text rs"
| "rule_text (StyleRule sels decls) =
     js_join '','' sels @ ''{'' @ js_join '';'' (map declaration_text decls) @ ''}''"
| "rule_text (FontFaceRule decls) =
     ''@font-face{'' @ js_join '';'' (map declaration_text decls) @ ''}''"
| "rule_text (ContainerRule rs) = ''@media all{'' @ rules_text rs @ ''}''"
| "rule_text (OtherRule t) = t"

text \<open>The sheets of the examples, parsed.\<close>

definition sheet_pseudo :: "rule list" where
  "sheet_pseudo = [StyleRule [''::before''] [\<lparr>property = ''color'', val = ''red''\<rparr>]]"

definition sheet_mixed :: "rule list" where
  "sheet_mixed =
     [StyleRule [''p:hover'', ''q'', ''body''] [\<lparr>property = ''color'', val = ''red''\<rparr>],
      StyleRule [''q''] [\<lparr>property = ''color'', val = ''blue''\<rparr>],
      ContainerRule [StyleRule [''q'', ''table''] [\<lparr>property = ''color'', val = ''green''\<rparr>]],
      ContainerRule [StyleRule [''p''] [\<lparr>property = ''font-family'', val = ''X''\<rparr>]]]"

definition sheet_font :: "rule list" where
  "sheet_font =
     [FontFaceRule [\<lparr>property = ''font-family'', val = ''X''\<rparr>,
                    \<lparr>property = ''src'', val = ''url(x.woff2)''\<rparr>],
      StyleRule [''p''] [\<lparr>property = ''font-family'', val = ''X''\<rparr>]]"

definition sheet_two_fonts :: "rule list" where
  "sheet_two_fonts =
     [FontFaceRule [\<lparr>property = ''font-family'', val = ''X''\<rparr>,
                    \<lparr>property = ''src'', val = ''url(https://cdn.example/x.woff2)''\<rparr>],
      FontFaceRule [\<lparr>property = ''font-family'', val = ''Y''\<rparr>,
                    \<lparr>property = ''src'', val = ''url(y.woff2)''\<rparr>],
      FontFaceRule [\<lparr>property = ''font-family'', val = ''X bold''\<rparr>,
                    \<lparr>property = ''src'', val = ''url(https://cdn.example/x.woff2)''\<rparr>]]"

definition sheet_unused :: "rule list" where
  "sheet_unused = [StyleRule [''q''] [\<lparr>property = ''color'', val = ''blue''\<rparr>]]"

definition sheet_p :: "rule list" where
  "sheet_p = [StyleRule [''p''] [\<lparr>property = ''color'', val = ''red''\<rparr>]]"

definition sheet_face :: "rule list" where
  "sheet_face =
     [FontFaceRule [\<lparr>property = ''font-family'', val = ''X''\<rparr>,
                    \<lparr>property = ''src'', val = ''url(x.woff2)''\<rparr>]]"

definition example_parse :: "string \<Rightarrow> error + rule list" where
  "example_parse sheet =
     (case map_of [(rules_text sheet_pseudo, sheet_pseudo), (rules_text sheet_mixed, sheet_mixed),
                   (rules_text sheet_font, sheet_font), (rules_text sheet_two_fonts, sheet_two_fonts),
                   (rules_text sheet_unused, sheet_unused), (rules_text sheet_face, sheet_face),
                   (rules_text sheet_p, sheet_p)]
             sheet of
        None \<Rightarrow> Inl (CollaboratorError ''parse'')
      | Some ast \<Rightarrow> Inr ast)"

definition example_collaborators :: collaborators where
  "example_collaborators =
     \<lparr>querySelector = (\<lambda>doc. tag_engine doc), parseStylesheet = example_parse,
      serializeStylesheet = (\<lambda>ast compress. rules_text ast)\<rparr>"

subsection \<open>Documents and options of the examples\<close>

text \<open>
  \<open><html><head><link rel="stylesheet" href="/a.css"><link rel="stylesheet" href="/b.css">
  </head><body><p></p></body></html>\<close>
\<close>

definition doc_two_links :: document where
  "doc_two_links =
     \<lparr>roots = [Element 0 ''html'' [] None
        [Element 1 ''head'' [] None
           [Element 2 ''link'' [(''rel'', Some ''stylesheet''), (''href'', Some ''/a.css'')] None [],
            Element 3 ''link'' [(''rel'', Some ''stylesheet''), (''href'', Some ''/b.css'')] None []],
         Element 4 ''body'' [] None [Element 5 ''p'' [] None []]]],
      nextId = 6\<rparr>"

definition css_ab :: "string \<rightharpoonup> string" where
  "css_ab = [''/a.css'' \<mapsto> ''p{color:red}'', ''/b.css'' \<mapsto> ''q{color:blue}'']"

text \<open>The place of the two links: the children of \<open>head\<close>.\<close>

definition in_head :: position where
  "in_head = Inside 1 ''head'' [] None []
     (Inside 0 ''html'' [] None [] Top [])
     [Element 4 ''body'' [] None [Element 5 ''p'' [] None []]]"

text \<open>The place of \<open>head\<close>: the children of \<open>html\<close>.\<close>

definition in_html :: position where
  "in_html = Inside 0 ''html'' [] None [] Top []"

text \<open>
  \<open><html><head><link rel="stylesheet" href="https://cdn.example/x.css"></head>
  <body></body></html>\<close>
\<close>

definition doc_cdn_link :: document where
  "doc_cdn_link =
     \<lparr>roots = [Element 0 ''html'' [] None
        [Element 1 ''head'' [] None
           [Element 2 ''link''
              [(''rel'', Some ''stylesheet''), (''href'', Some ''https://cdn.example/x.css'')] None []],
         Element 3 ''body'' [] None []]],
      nextId = 4\<rparr>"

text \<open>\<open><html><head><style>::before{color:red}</style></head><body><p></p></body></html>\<close>\<close>

definition doc_pseudo_style :: document where
  "doc_pseudo_style =
     \<lparr>roots = [Element 0 ''html'' [] None
        [Element 1 ''head'' [] None
           [Element 2 ''style'' [] None [TextNode 3 (Some ''::before{color:red}'')]],
         Element 4 ''body'' [] None [Element 5 ''p'' [] None []]]],
      nextId = 6\<rparr>"

text \<open>\<open><html><head><style></style></head><body><p></p></body></html>\<close>\<close>

definition doc_empty_style :: document where
  "doc_empty_style =
     \<lparr>roots = [Element 0 ''html'' [] None
        [Element 1 ''head'' [] None [Element 2 ''style'' [] None []],
         Element 3 ''body'' [] None [Element 4 ''p'' [] None []]]],
      nextId = 5\<rparr>"

text \<open>\<open><html><head><style>q{color:blue}</style></head><body><p></p></body></html>\<close>\<close>

definition doc_unused_style :: document where
  "doc_unused_style =
     \<lparr>roots = [Element 0 ''html'' [] None
        [Element 1 ''head'' [] None
           [Element 2 ''style'' [] None [TextNode 3 (Some ''q{color:blue}'')]],
         Element 4 ''body'' [] None [Element 5 ''p'' [] None []]]],
      nextId = 6\<rparr>"

text \<open>
  \<open><html><head><style>@font-face{font-family:X;src:url(x.woff2)}</style>
  <style>@font-face{font-family:X;src:url(x.woff2)}</style></head><body><p></p></body></html>\<close>
\<close>

definition doc_two_font_styles :: document where
  "doc_two_font_styles =
     \<lparr>roots = [Element 0 ''html'' [] None
        [Element 1 ''head'' [] None
           [Element 2 ''style'' [] None
              [TextNode 3 (Some ''@font-face{font-family:X;src:url(x.woff2)}'')],
            Element 4 ''style'' [] None
              [TextNode 5 (Some ''@font-face{font-family:X;src:url(x.woff2)}'')]],
         Element 6 ''body'' [] None [Element 7 ''p'' [] None []]]],
      nextId = 8\<rparr>"

text \<open>
  \<open><html><head><style>@font-face{font-family:X;src:url(x.woff2)}p{font-family:X}</style>
  </head><body><p></p></body></html>\<close>
\<close>

definition doc_font_style :: document where
  "doc_font_style =
     \<lparr>roots = [Element 0 ''html'' [] None
        [Element 1 ''head'' [] None
           [Element 2 ''style'' [] None
              [TextNode 3 (Some ''@font-face{font-family:X;src:url(x.woff2)}p{font-family:X}'')]],
         Element 4 ''body'' [] None [Element 5 ''p'' [] None []]]],
      nextId = 6\<rparr>"

section \<open>Properties\<close>

subsection \<open>The tree operations\<close>

lemma ids_append: "ids (xs @ ys) = ids xs @ ids ys"
  by (induction xs) auto

lemma nid_in_ids_of: "nid x \<in> set (ids_of x)"
  by (cases x) auto

lemma find_node_append:
  "find_node l (xs @ ys) = (case find_node l xs of Some y \<Rightarrow> Some y | None \<Rightarrow> find_node l ys)"
  by (induction xs) (auto split: option.splits)

lemma insert_after_append:
  "insert_after l n (xs @ ys) = insert_after l n xs @ insert_after l n ys"
  by (induction xs) auto

lemma update_node_append:
  "update_node l f (xs @ ys) = update_node l f xs @ update_node l f ys"
  by (induction xs) auto

lemma remove_node_append:
  "remove_node l (xs @ ys) = remove_node l xs @ remove_node l ys"
  by (induction xs) auto

text \<open>An operation on an identifier that the tree does not hold changes nothing.\<close>

lemma find_node_absent:
  "l \<notin> set (ids xs) \<Longrightarrow> find_node l xs = None"
  "l \<notin> set (ids_of x) \<Longrightarrow> find_in l x = None"
  by (induction l xs and l x rule: find_node_find_in.induct) auto

lemma insert_after_absent:
  "l \<notin> set (ids xs) \<Longrightarrow> insert_after l n xs = xs"
  "l \<notin> set (ids_of x) \<Longrightarrow> insert_in l n x = x"
  using nid_in_ids_of
  by (induction l n xs and l n x rule: insert_after_insert_in.induct) auto

lemma update_node_absent:
  "l \<notin> set (ids xs) \<Longrightarrow> update_node l f xs = xs"
  "l \<notin> set (ids_of x) \<Longrightarrow> update_in l f x = x"
  using nid_in_ids_of
  by (induction l f xs and l f x rule: update_node_update_in.induct) auto

lemma remove_node_absent:
  "l \<notin> set (ids xs) \<Longrightarrow> remove_node l xs = xs"
  "l \<notin> set (ids_of x) \<Longrightarrow> remove_in l x = x"
  using nid_in_ids_of
  by (induction l xs and l x rule: remove_node_remove_in.induct) auto

text \<open>The operations reach through a place that does not hold their identifier.\<close>

lemma plug_ids: "set (ids (plug p xs)) = set (ids xs) \<union> set (position_ids p)"
  by (induction p arbitrary: xs) (auto simp: ids_append)

lemma plug_distinct:
  "distinct (ids (plug p xs)) \<Longrightarrow> distinct (ids xs) \<and> set (ids xs) \<inter> set (position_ids p) = {}"
proof (induction p arbitrary: xs)
  case Top
  then show ?case by simp
next
  case (Inside i t a s left p right)
  from Inside.IH[of "left @ Element i t a s xs # right"] Inside.prems
  show ?case by (auto simp: ids_append)
qed

lemma find_node_plug:
  "l \<notin> set (position_ids p) \<Longrightarrow> find_node l (plug p xs) = find_node l xs"
proof (induction p arbitrary: xs)
  case Top
  then show ?case by simp
next
  case (Inside i t a s left p right)
  then show ?case
    by (simp add: find_node_append find_node_absent split: option.splits)
qed

lemma insert_after_plug:
  "l \<notin> set (position_ids p) \<Longrightarrow> insert_after l n (plug p xs) = plug p (insert_after l n xs)"
proof (induction p arbitrary: xs)
  case Top
  then show ?case by simp
next
  case (Inside i t a s left p right)
  then show ?case
    by (simp add: insert_after_append insert_after_absent)
qed

lemma update_node_plug:
  "l \<notin> set (position_ids p) \<Longrightarrow> update_node l f (plug p xs) = plug p (update_node l f xs)"
proof (induction p arbitrary: xs)
  case Top
  then show ?case by simp
next
  case (Inside i t a s left p right)
  then show ?case
    by (simp add: update_node_append update_node_absent)
qed

text \<open>The operations at an element among its siblings.\<close>

lemma find_node_here:
  "l \<notin> set (ids pre) \<Longrightarrow> nid x = l \<Longrightarrow> find_node l (pre @ x # post) = Some x"
  by (cases x) (simp_all add: find_node_append find_node_absent)

lemma insert_after_first:
  "l \<notin> set (ids pre) \<Longrightarrow> l \<notin> set (ids cs) \<Longrightarrow> l \<notin> set (ids post)
   \<Longrightarrow> insert_after l n (pre @ Element l t a s cs # post) = pre @ Element l t a s cs # n # post"
  by (simp add: insert_after_append insert_after_absent)

lemma update_node_first:
  "l \<notin> set (ids pre) \<Longrightarrow> l \<notin> set (ids cs) \<Longrightarrow> l \<notin> set (ids post)
   \<Longrightarrow> update_node l f (pre @ Element l t a s cs # post) = pre @ f (Element l t a s cs) # post"
  by (simp add: update_node_append update_node_absent)

lemma update_node_second:
  "l \<notin> set (ids pre) \<Longrightarrow> l \<notin> set (ids_of x) \<Longrightarrow> l \<notin> set (ids cs) \<Longrightarrow> l \<notin> set (ids post)
   \<Longrightarrow> update_node l f (pre @ x # Element l t a s cs # post)
       = pre @ x # f (Element l t a s cs) # post"
  using update_node_first[of l "pre @ [x]" cs post f t a s] nid_in_ids_of[of x]
  by (auto simp: ids_append update_node_absent)

text \<open>What a well-formed document says about an element and about new identifiers.\<close>

lemma sited_facts:
  assumes "wf_doc doc" "roots doc = plug p (pre @ Element l t a s cs # post)"
  shows "l \<notin> set (position_ids p)" "l \<notin> set (ids pre)" "l \<notin> set (ids cs)" "l \<notin> set (ids post)"
    "\<And>n. nextId doc \<le> n \<Longrightarrow> n \<notin> set (position_ids p) \<and> n \<notin> set (ids pre) \<and> n \<noteq> l
        \<and> n \<notin> set (ids cs) \<and> n \<notin> set (ids post)"
proof -
  from assms have d: "distinct (ids (plug p (pre @ Element l t a s cs # post)))"
    and b: "\<forall>i \<in> set (ids (plug p (pre @ Element l t a s cs # post))). i < nextId doc"
    by (simp_all add: wf_doc_def)
  from plug_distinct[OF d]
  show "l \<notin> set (position_ids p)" "l \<notin> set (ids pre)" "l \<notin> set (ids cs)" "l \<notin> set (ids post)"
    by (auto simp: ids_append)
  fix n
  assume n: "nextId doc \<le> n"
  have "n \<notin> set (ids (plug p (pre @ Element l t a s cs # post)))"
  proof
    assume "n \<in> set (ids (plug p (pre @ Element l t a s cs # post)))"
    with b have "n < nextId doc" by blast
    with n show False by simp
  qed
  then show "n \<notin> set (position_ids p) \<and> n \<notin> set (ids pre) \<and> n \<noteq> l
        \<and> n \<notin> set (ids cs) \<and> n \<notin> set (ids post)"
    by (simp add: plug_ids ids_append)
qed

lemma find_node_sited:
  assumes "wf_doc doc" "roots doc = plug p (pre @ Element l t a s cs # post)"
  shows "find_node l (roots doc) = Some (Element l t a s cs)"
  using sited_facts(1,2)[OF assms] assms(2)
  by (simp add: find_node_plug find_node_here)

subsection \<open>The inline step\<close>

lemma inline_sheet_sited:
  assumes "wf_doc doc" "roots doc = plug p (pre @ Element l t a s cs # post)"
  shows "inline_sheet l href sheet doc =
     \<lparr>roots = plug p (pre @ Element l t a s cs
          # Element (nextId doc) ''style'' [] href [TextNode (Suc (nextId doc)) sheet] # post),
      nextId = Suc (Suc (nextId doc))\<rparr>"
proof -
  note f = sited_facts[OF assms]
  from f(5)[of "nextId doc"] have g: "nextId doc \<notin> set (position_ids p)"
    "nextId doc \<notin> set (ids pre)" "nextId doc \<noteq> l" "nextId doc \<notin> set (ids cs)"
    "nextId doc \<notin> set (ids post)" by simp_all
  show ?thesis
    using f(1-4) g assms(2)
    by (simp add: inline_sheet_def createElement_def createTextNode_def insertAfter_def
        on_node_def insert_after_plug insert_after_first update_node_plug update_node_second)
qed

subsection \<open>Links that are filtered out\<close>

text \<open>
  Claim C8. A link whose \<open>href\<close> matches \<open>^(https?:)?//\<close> when no filter is given, or
  whose \<open>href\<close> the filter selects when one is given, is left as it is:
  \<open>embedLinkedStylesheet\<close> returns the document it was given, with no \<open>style\<close> inserted
  and no attribute changed.
\<close>

theorem filtered_link_untouched:
  assumes "find_node link (roots doc) = Some l"
    and "getAttribute ''href'' l = Some href"
    and "(urlFilter opts = None \<and> is_network_url href)
         \<or> (\<exists>f. urlFilter opts = Some f \<and> f (Some href))"
  shows "embedLinkedStylesheet opts cssFiles link doc = Inr doc"
  using assms
  by (auto simp: embedLinkedStylesheet_def skip_link_def Let_def)

theorem filtered_link_untouched_witness:
  "embedLinkedStylesheet default_options css_ab 2 doc_cdn_link = Inr doc_cdn_link
   \<and> embedLinkedStylesheet (default_options\<lparr>urlFilter := Some (\<lambda>h. h = Some ''/a.css'')\<rparr>)
        css_ab 2 doc_two_links = Inr doc_two_links"
proof -
  have a: "find_node 2 (roots doc_cdn_link)
      = Some (Element 2 ''link''
          [(''rel'', Some ''stylesheet''), (''href'', Some ''https://cdn.example/x.css'')] None [])"
    by (simp add: doc_cdn_link_def)
  have b: "find_node 2 (roots doc_two_links)
      = Some (Element 2 ''link'' [(''rel'', Some ''stylesheet''), (''href'', Some ''/a.css'')] None [])"
    by (simp add: doc_two_links_def)
  have "embedLinkedStylesheet default_options css_ab 2 doc_cdn_link = Inr doc_cdn_link"
    by (rule filtered_link_untouched[OF a, of "''https://cdn.example/x.css''"])
       (simp_all add: default_options_def is_network_url_def starts_with_def)
  moreover have "embedLinkedStylesheet
      (default_options\<lparr>urlFilter := Some (\<lambda>h. h = Some ''/a.css'')\<rparr>) css_ab 2 doc_two_links
      = Inr doc_two_links"
    by (rule filtered_link_untouched[OF b, of "''/a.css''"]) simp_all
  ultimately show ?thesis by simp
qed

subsection \<open>\<open>preload: false\<close>\<close>

text \<open>
  Claim C9. With \<open>options.preload === false\<close>, a link that is not filtered out gets the
  inline step and nothing else: the new \<open>style\<close> element, holding the sheet, stands
  immediately after the link; the link, its siblings before and after, and the
  document around them are as they were. No script, no second link and no \<open>noscript\<close>
  is inserted.
\<close>

theorem preload_false_only_inlines:
  assumes "wf_doc doc"
    and "roots doc = plug p (pre @ Element link t a s cs # post)"
    and "href = getAttribute ''href'' (Element link t a s cs)"
    and "skip_link opts href = Inr False"
    and "preload opts = PreloadFalse"
  shows "embedLinkedStylesheet opts cssFiles link doc =
     Inr \<lparr>roots = plug p (pre @ Element link t a s cs
            # Element (nextId doc) ''style'' [] href
                [TextNode (Suc (nextId doc)) (cssFiles (property_key href))]
            # post),
          nextId = nextId doc + 2\<rparr>"
  using assms(3-5) find_node_sited[OF assms(1,2)] inline_sheet_sited[OF assms(1,2)]
  by (simp add: embedLinkedStylesheet_def Let_def)

theorem preload_false_only_inlines_witness:
  "embedLinkedStylesheet (default_options\<lparr>preload := PreloadFalse\<rparr>) css_ab 2 doc_two_links =
     Inr \<lparr>roots = [Element 0 ''html'' [] None
        [Element 1 ''head'' [] None
           [Element 2 ''link'' [(''rel'', Some ''stylesheet''), (''href'', Some ''/a.css'')] None [],
            Element 6 ''style'' [] (Some ''/a.css'') [TextNode 7 (Some ''p{color:red}'')],
            Element 3 ''link'' [(''rel'', Some ''stylesheet''), (''href'', Some ''/b.css'')] None []],
         Element 4 ''body'' [] None [Element 5 ''p'' [] None []]]],
      nextId = 8\<rparr>"
proof -
  have w: "wf_doc doc_two_links"
    by (simp add: wf_doc_def doc_two_links_def)
  have r: "roots doc_two_links = plug in_head ([] @
      Element 2 ''link'' [(''rel'', Some ''stylesheet''), (''href'', Some ''/a.css'')] None []
      # [Element 3 ''link'' [(''rel'', Some ''stylesheet''), (''href'', Some ''/b.css'')] None []])"
    by (simp add: doc_two_links_def in_head_def)
  have s: "skip_link (default_options\<lparr>preload := PreloadFalse\<rparr>) (Some ''/a.css'') = Inr False"
    by (simp add: skip_link_def default_options_def is_network_url_def starts_with_def)
  show ?thesis
    using preload_false_only_inlines[OF w r _ s, of css_ab]
    by (simp add: in_head_def doc_two_links_def default_options_def css_ab_def property_key_def)
qed

subsection \<open>The first walk: pruning\<close>

lemma filter_selectors_answers:
  "\<forall>sel \<in> set sels. engine_answers q sel
   \<Longrightarrow> filter_selectors q sels = Inr (filter (selector_found q) sels)"
  by (induction sels) (auto simp: engine_answers_def selector_found_def split: sum.splits option.splits)

lemma filter_selectors_raises:
  "\<exists>sel \<in> set sels. \<not> engine_answers q sel \<Longrightarrow> \<exists>e. filter_selectors q sels = Inl e"
  by (induction sels) (auto simp: engine_answers_def split: sum.splits option.splits)

lemma prune_walk_answers:
  "\<forall>sel \<in> set (all_selectors rs). engine_answers q sel
   \<Longrightarrow> \<exists>fonts. walkStyleRules (prune_rule q) rs cf = Inr (pruned (selector_found q) rs, fonts)"
  "\<forall>sel \<in> set (rule_selectors r). engine_answers q sel
   \<Longrightarrow> \<exists>fonts. walk_nested (prune_rule q) r cf
        = Inr (case r of ContainerRule rs \<Rightarrow> ContainerRule (pruned (selector_found q) rs) | _ \<Rightarrow> r, fonts)"
proof (induction rs and r arbitrary: cf and cf rule: all_selectors_rule_selectors.induct)
  case 1
  then show ?case by simp
next
  case (2 r rs)
  from "2.prems" have a: "\<forall>sel \<in> set (rule_selectors r). engine_answers q sel"
    and b: "\<forall>sel \<in> set (all_selectors rs). engine_answers q sel" by auto
  from "2.IH"(1)[OF a, of cf] obtain f1 where
    n: "walk_nested (prune_rule q) r cf
        = Inr (case r of ContainerRule rs \<Rightarrow> ContainerRule (pruned (selector_found q) rs) | _ \<Rightarrow> r, f1)"
    by blast
  show ?case
  proof (cases r)
    case (StyleRule sels decls)
    with a have fs: "filter_selectors q sels = Inr (filter (selector_found q) sels)"
      by (simp add: filter_selectors_answers)
    show ?thesis
    proof (cases "filter (selector_found q) sels = []")
      case True
      from "2.IH"(2)[OF b, of cf] obtain f2 where
        "walkStyleRules (prune_rule q) rs cf = Inr (pruned (selector_found q) rs, f2)" by blast
      with StyleRule fs True show ?thesis by simp
    next
      case False
      from "2.IH"(2)[OF b, of "collect_fonts decls cf"] obtain f2 where
        "walkStyleRules (prune_rule q) rs (collect_fonts decls cf)
           = Inr (pruned (selector_found q) rs, f2)" by blast
      with StyleRule fs False show ?thesis by simp
    qed
  next
    case (FontFaceRule decls)
    from "2.IH"(2)[OF b, of cf] obtain f2 where
      "walkStyleRules (prune_rule q) rs cf = Inr (pruned (selector_found q) rs, f2)" by blast
    with FontFaceRule show ?thesis by simp
  next
    case (ContainerRule nested)
    from "2.IH"(2)[OF b, of f1] obtain f2 where
      "walkStyleRules (prune_rule q) rs f1 = Inr (pruned (selector_found q) rs, f2)" by blast
    with ContainerRule n show ?thesis by simp
  next
    case (OtherRule t)
    from "2.IH"(2)[OF b, of cf] obtain f2 where
      "walkStyleRules (prune_rule q) rs cf = Inr (pruned (selector_found q) rs, f2)" by blast
    with OtherRule show ?thesis by simp
  qed
next
  case (3 sels decls)
  then show ?case by simp
next
  case (4 decls)
  then show ?case by simp
next
  case (5 rs)
  from "5.prems" have "\<forall>sel \<in> set (all_selectors rs). engine_answers q sel" by simp
  from "5.IH"[OF this, of cf] obtain f where
    "walkStyleRules (prune_rule q) rs cf = Inr (pruned (selector_found q) rs, f)" by blast
  then show ?case by simp
next
  case (6 t)
  then show ?case by simp
qed


lemma prune_walk_raises:
  "\<exists>sel \<in> set (all_selectors rs). \<not> engine_answers q sel
   \<Longrightarrow> \<exists>e. walkStyleRules (prune_rule q) rs cf = Inl e"
  "\<exists>sel \<in> set (rule_selectors r). \<not> engine_answers q sel
   \<Longrightarrow> (\<exists>e. walk_nested (prune_rule q) r cf = Inl e)
       \<or> (\<exists>sels decls. r = StyleRule sels decls)"
proof (induction rs and r arbitrary: cf and cf rule: all_selectors_rule_selectors.induct)
  case 1
  then show ?case by simp
next
  case (2 r rs)
  show ?case
  proof (cases "\<forall>sel \<in> set (rule_selectors r). engine_answers q sel")
    case True
    with "2.prems" have b: "\<exists>sel \<in> set (all_selectors rs). \<not> engine_answers q sel" by auto
    from prune_walk_answers(2)[OF True, of cf] obtain f1 where
      n: "walk_nested (prune_rule q) r cf
          = Inr (case r of ContainerRule rs \<Rightarrow> ContainerRule (pruned (selector_found q) rs) | _ \<Rightarrow> r, f1)"
      by blast
    show ?thesis
    proof (cases r)
      case (StyleRule sels decls)
      with True have fs: "filter_selectors q sels = Inr (filter (selector_found q) sels)"
        by (simp add: filter_selectors_answers)
      from "2.IH"(2)[OF b, of cf] obtain e1 where
        e1: "walkStyleRules (prune_rule q) rs cf = Inl e1" by blast
      from "2.IH"(2)[OF b, of "collect_fonts decls cf"] obtain e2 where
        e2: "walkStyleRules (prune_rule q) rs (collect_fonts decls cf) = Inl e2" by blast
      from StyleRule fs e1 e2 show ?thesis by simp
    next
      case (FontFaceRule decls)
      from "2.IH"(2)[OF b, of cf] obtain e1 where
        "walkStyleRules (prune_rule q) rs cf = Inl e1" by blast
      with FontFaceRule show ?thesis by simp
    next
      case (ContainerRule nested)
      from "2.IH"(2)[OF b, of f1] obtain e1 where
        "walkStyleRules (prune_rule q) rs f1 = Inl e1" by blast
      with ContainerRule n show ?thesis by simp
    next
      case (OtherRule t)
      from "2.IH"(2)[OF b, of cf] obtain e1 where
        "walkStyleRules (prune_rule q) rs cf = Inl e1" by blast
      with OtherRule show ?thesis by simp
    qed
  next
    case False
    then have ex: "\<exists>sel \<in> set (rule_selectors r). \<not> engine_answers q sel" by simp
    from "2.IH"(1)[OF ex, of cf] show ?thesis
    proof
      assume "\<exists>e. walk_nested (prune_rule q) r cf = Inl e"
      then show ?thesis by auto
    next
      assume "\<exists>sels decls. r = StyleRule sels decls"
      then obtain sels decls where r: "r = StyleRule sels decls" by blast
      with ex obtain e where "filter_selectors q sels = Inl e"
        using filter_selectors_raises[of sels q] by auto
      with r show ?thesis by simp
    qed
  qed
next
  case (3 sels decls)
  then show ?case by simp
next
  case (4 decls)
  then show ?case by simp
next
  case (5 rs)
  from "5.prems" have "\<exists>sel \<in> set (all_selectors rs). \<not> engine_answers q sel" by simp
  from "5.IH"[OF this, of cf] show ?case by auto
next
  case (6 t)
  then show ?case by simp
qed

lemma pruned_well_pruned:
  "well_pruned m (pruned m rs)"
  "pruned_rule m r = Some r' \<Longrightarrow> rule_retained m r'"
proof (induction m rs and m r arbitrary: and r' rule: pruned_pruned_rule.induct)
  case (2 m r rs)
  then show ?case by (cases "pruned_rule m r") auto
next
  case (3 m sels decls)
  then show ?case by (auto simp: list_all_iff split: if_splits)
next
  case (5 m rs)
  then show ?case by (auto split: if_splits)
qed auto

text \<open>
  Claim C5. The first walk of \<open>processStyle\<close> (lines 216 to 245) is the Rule Pruner
  of the specification: when the selector engine answers on every selector of the
  sheet, the walk returns the sheet pruned. A style rule of which no selector matches
  is absent; a style rule with a matching selector is present with exactly its
  matching selectors, in their order; a container whose nested list has become empty
  is absent. So every style rule of the result has a selector, and only selectors that
  match, and every container of the result has a nested rule.
\<close>

theorem pruning_keeps_matching_selectors:
  assumes "\<forall>sel \<in> set (all_selectors ast). engine_answers q sel"
  shows "(\<exists>criticalFonts.
     walkStyleRules (prune_rule q) ast [] = Inr (pruned (selector_found q) ast, criticalFonts))
    \<and> well_pruned (selector_found q) (pruned (selector_found q) ast)"
  using prune_walk_answers(1)[OF assms] pruned_well_pruned(1) by blast

theorem pruning_keeps_matching_selectors_witness:
  "\<exists>criticalFonts. walkStyleRules (prune_rule (tag_engine doc_two_links)) sheet_mixed [] =
     Inr ([StyleRule [''p:hover'', ''body''] [\<lparr>property = ''color'', val = ''red''\<rparr>],
           ContainerRule [StyleRule [''p''] [\<lparr>property = ''font-family'', val = ''X''\<rparr>]]],
          criticalFonts)"
proof -
  have sp: "strip_pseudo ''p:hover'' = ''p''" "strip_pseudo ''q'' = ''q''"
    "strip_pseudo ''body'' = ''body''" "strip_pseudo ''table'' = ''table''"
    "strip_pseudo ''p'' = ''p''"
    by (simp_all add: strip_pseudo_def pseudo_match_def starts_with_def is_name_char_def
        is_letter_def is_terminator_def is_space_def)
  have h: "\<forall>sel \<in> set (all_selectors sheet_mixed). engine_answers (tag_engine doc_two_links) sel"
    by (simp add: sheet_mixed_def engine_answers_def tag_engine_def sp)
  have f: "selector_found (tag_engine doc_two_links) ''p:hover''"
    "\<not> selector_found (tag_engine doc_two_links) ''q''"
    "selector_found (tag_engine doc_two_links) ''body''"
    "\<not> selector_found (tag_engine doc_two_links) ''table''"
    "selector_found (tag_engine doc_two_links) ''p''"
    by (simp_all add: selector_found_def tag_engine_def sp querySelector_first_def
        doc_two_links_def is_tag_def)
  show ?thesis
    using pruning_keeps_matching_selectors[OF h] by (simp add: sheet_mixed_def f)
qed

subsection \<open>What \<open>processStyle\<close> leaves in the document\<close>

lemma find_node_in_ids:
  "find_node l xs = Some y \<Longrightarrow> l \<in> set (ids xs)"
  "find_in l x = Some y \<Longrightarrow> l \<in> set (ids_of x)"
  by (induction l xs and l x rule: find_node_find_in.induct) (auto split: option.splits if_splits)

lemma ids_update_grows:
  "(\<And>y. set (ids_of y) \<subseteq> set (ids_of (f y))) \<Longrightarrow> set (ids xs) \<subseteq> set (ids (update_node l f xs))"
  "(\<And>y. set (ids_of y) \<subseteq> set (ids_of (f y))) \<Longrightarrow> set (ids_of x) \<subseteq> set (ids_of (update_in l f x))"
proof (induction l f xs and l f x rule: update_node_update_in.induct)
  case (2 l f x xs)
  have a: "set (ids_of x) \<subseteq> set (ids_of (update_in l f x))" using 2 by blast
  have b: "set (ids_of (update_in l f x)) \<subseteq> set (ids_of (f (update_in l f x)))"
    using "2.prems" by blast
  have c: "set (ids xs) \<subseteq> set (ids (update_node l f xs))" using 2 by blast
  from a b c show ?case by auto
qed auto

lemma ids_of_appendChild: "set (ids_of x) \<subseteq> set (ids_of (appendChild n x))"
  by (cases x) (auto simp: ids_append)

lemma nid_update_in: "nid (update_in l f x) = nid x"
  by (cases x) auto

lemma update_keeps_target:
  "(\<And>y. nid (f y) = nid y) \<Longrightarrow> l \<in> set (ids xs) \<Longrightarrow> l \<in> set (ids (update_node l f xs))"
  "(\<And>y. nid (f y) = nid y) \<Longrightarrow> l \<in> set (ids_of x) \<Longrightarrow> l \<in> set (ids_of (update_in l f x))"
proof (induction l f xs and l f x rule: update_node_update_in.induct)
  case (2 l f x xs)
  show ?case
  proof (cases "nid x = l")
    case True
    have "nid (f (update_in l f x)) = l"
      using "2.prems"(1)[of "update_in l f x"] True by (simp add: nid_update_in)
    with nid_in_ids_of[of "f (update_in l f x)"] have "l \<in> set (ids_of (f (update_in l f x)))"
      by metis
    with True show ?thesis by simp
  next
    case False
    with 2 show ?thesis by auto
  qed
qed auto

lemma walk_invariant:
  "(\<And>r s r' k s'. it r s = Inr (r', k, s') \<Longrightarrow> P s \<Longrightarrow> P s')
   \<Longrightarrow> walkStyleRules it rs s = Inr (rs', s') \<Longrightarrow> P s \<Longrightarrow> P s'"
  "(\<And>r s r' k s'. it r s = Inr (r', k, s') \<Longrightarrow> P s \<Longrightarrow> P s')
   \<Longrightarrow> walk_nested it r s = Inr (r', s') \<Longrightarrow> P s \<Longrightarrow> P s'"
proof (induction it rs s and it r s arbitrary: rs' s' and r' s' rule: walkStyleRules_walk_nested.induct)
  case (2 it r rs s)
  from "2.prems"(2) obtain r1 s1 where n: "walk_nested it r s = Inr (r1, s1)"
    by (auto split: sum.splits)
  with "2.prems"(2) obtain r2 k s2 where i: "it r1 s1 = Inr (r2, k, s2)"
    by (auto split: sum.splits)
  with n "2.prems"(2) obtain rs2 where w: "walkStyleRules it rs s2 = Inr (rs2, s')"
    by (auto split: sum.splits)
  from "2.IH"(1)[OF "2.prems"(1) n "2.prems"(3)] have "P s1" by simp
  with "2.prems"(1)[OF i] have "P s2" by simp
  from "2.IH"(2)[OF n _ i _ _ "2.prems"(1) w this] show ?case by simp
next
  case (3 it rs s)
  from "3.prems"(2) obtain rs2 where "walkStyleRules it rs s = Inr (rs2, s')"
    by (auto split: sum.splits)
  from "3.IH"[OF "3.prems"(1) this "3.prems"(3)] show ?case .
qed auto


lemma append_new_ids:
  assumes "append_new parent n d = Inr d'"
  shows "set (ids (roots d)) \<subseteq> set (ids (roots d'))"
proof (cases parent)
  case None
  with assms show ?thesis by (simp add: append_new_def)
next
  case (Some p)
  with assms have "roots d' = update_node p (appendChild n) (roots d)"
    by (auto simp: append_new_def)
  with ids_update_grows(1)[of "appendChild n" "roots d" p, OF ids_of_appendChild]
  show ?thesis by simp
qed

lemma append_preload_ids:
  "append_preload head u d = Inr d' \<Longrightarrow> set (ids (roots d)) \<subseteq> set (ids (roots d'))"
  using append_new_ids[of head _ "d\<lparr>nextId := Suc (nextId d)\<rparr>" d']
  by (auto simp: append_preload_def createElement_def Let_def)

lemma font_rule_ids:
  "font_rule opts head cf r (d, seen) = Inr (r', k, (d', seen'))
   \<Longrightarrow> set (ids (roots d)) \<subseteq> set (ids (roots d'))"
  using append_preload_ids[of head _ d d']
  by (cases r) (auto simp: Let_def split: prod.splits option.splits if_splits sum.splits)

lemma font_walk_keeps_ids:
  assumes "walkStyleRules (font_rule opts head cf) rs (d, seen) = Inr (rs', (d', seen'))"
    and "x \<in> set (ids (roots d))"
  shows "x \<in> set (ids (roots d'))"
proof -
  have step: "\<And>r s r' k s'. font_rule opts head cf r s = Inr (r', k, s')
      \<Longrightarrow> x \<in> set (ids (roots (fst s))) \<Longrightarrow> x \<in> set (ids (roots (fst s')))"
  proof -
    fix r s r' k s'
    assume a: "font_rule opts head cf r s = Inr (r', k, s')" and b: "x \<in> set (ids (roots (fst s)))"
    obtain d0 seen0 where s: "s = (d0, seen0)" by (cases s)
    obtain d1 seen1 where s': "s' = (d1, seen1)" by (cases s')
    from font_rule_ids[of opts head cf r d0 seen0 r' k d1 seen1] a b s s'
    show "x \<in> set (ids (roots (fst s')))" by auto
  qed
  from walk_invariant(1)[of "font_rule opts head cf" "\<lambda>s. x \<in> set (ids (roots (fst s)))",
      OF step assms(1)] assms(2)
  show ?thesis by simp
qed

lemma reduce_sheet_keeps_ids:
  assumes "reduce_sheet c opts sheet doc = Inr (out, d)" and "x \<in> set (ids (roots doc))"
  shows "x \<in> set (ids (roots d))"
proof -
  from assms(1) obtain ast ast1 cf ast2 seen where
    "walkStyleRules (font_rule opts (querySelector_first (is_tag ''head'') doc) cf) ast1 (doc, [])
       = Inr (ast2, (d, seen))"
    by (auto simp: reduce_sheet_def split: sum.splits prod.splits)
  from font_walk_keeps_ids[OF this assms(2)] show ?thesis .
qed

lemma nid_set_children: "nid (set_children cs x) = nid x"
  by (cases x) auto

lemma processStyle_element:
  "find_node style (roots doc) = Some (Element i t a s children) \<Longrightarrow>
   processStyle c opts style doc =
     (if children = [] \<or> style_text children = [] then Inr doc
      else case reduce_sheet c opts (style_text children) doc of
             Inl e \<Rightarrow> Inl e
           | Inr (out, d1) \<Rightarrow>
               if js_trim out = [] then Inr (d1\<lparr>roots := remove_node style (roots d1)\<rparr>)
               else Inr (on_node style (set_children [TextNode (nextId d1) (Some out)])
                          (d1\<lparr>nextId := Suc (nextId d1)\<rparr>)))"
  by (auto simp: processStyle_def style_text_def Let_def createTextNode_def split: sum.splits)

text \<open>
  Claim C10. A \<open>style\<close> element without child nodes makes \<open>processStyle\<close> return at
  once with the document as it was: the empty element stays. And whenever
  \<open>processStyle\<close> returns a document that no longer holds the \<open>style\<close> element, the
  element had text and the critical CSS of that text is empty after trimming.
\<close>

theorem empty_style_untouched:
  assumes "find_node style (roots doc) = Some (Element i t a s children)"
  shows "(children = [] \<longrightarrow> processStyle c opts style doc = Inr doc)
    \<and> (\<forall>doc'. processStyle c opts style doc = Inr doc' \<and> style \<notin> set (ids (roots doc'))
          \<longrightarrow> children \<noteq> [] \<and> style_text children \<noteq> []
              \<and> (\<exists>out d. reduce_sheet c opts (style_text children) doc = Inr (out, d)
                    \<and> js_trim out = []))"
proof -
  have first: "children = [] \<longrightarrow> processStyle c opts style doc = Inr doc"
    using assms by (simp add: processStyle_element)
  have second: "children \<noteq> [] \<and> style_text children \<noteq> []
     \<and> (\<exists>out d. reduce_sheet c opts (style_text children) doc = Inr (out, d) \<and> js_trim out = [])"
    if h: "processStyle c opts style doc = Inr doc' \<and> style \<notin> set (ids (roots doc'))" for doc'
  proof -
  from assms have present: "style \<in> set (ids (roots doc))"
    by (rule find_node_in_ids(1))
  show ?thesis
  proof (cases "children = [] \<or> style_text children = []")
    case True
    with assms h have "doc' = doc"
      by (simp add: processStyle_element)
    with h present show ?thesis by simp
  next
    case False
    with assms h obtain out d where
      r: "reduce_sheet c opts (style_text children) doc = Inr (out, d)"
      by (auto simp: processStyle_element split: sum.splits)
    from reduce_sheet_keeps_ids[OF r present] have in_d: "style \<in> set (ids (roots d))" .
    have "js_trim out = []"
    proof (rule ccontr)
      assume "js_trim out \<noteq> []"
      with assms h False r have
        "doc' = on_node style (set_children [TextNode (nextId d) (Some out)]) (d\<lparr>nextId := Suc (nextId d)\<rparr>)"
        by (simp add: processStyle_element)
      then have "roots doc' = update_node style (set_children [TextNode (nextId d) (Some out)]) (roots d)"
        by (simp add: on_node_def)
      with update_keeps_target(1)[of "set_children [TextNode (nextId d) (Some out)]" style "roots d"]
        in_d nid_set_children
      have "style \<in> set (ids (roots doc'))" by simp
      with h show False by simp
    qed
    with False r show ?thesis by auto
  qed
  qed
  from first second show ?thesis by blast
qed

theorem empty_style_untouched_witness:
  "processStyle example_collaborators default_options 2 doc_empty_style = Inr doc_empty_style
   \<and> (\<exists>out d. reduce_sheet example_collaborators default_options ''q{color:blue}'' doc_unused_style
          = Inr (out, d) \<and> js_trim out = [])"
proof -
  have e: "find_node 2 (roots doc_empty_style) = Some (Element 2 ''style'' [] None [])"
    by (simp add: doc_empty_style_def)
  have f: "find_node 2 (roots doc_unused_style)
      = Some (Element 2 ''style'' [] None [TextNode 3 (Some ''q{color:blue}'')])"
    by (simp add: doc_unused_style_def)
  have p: "example_parse ''q{color:blue}'' = Inr sheet_unused"
    by (simp add: example_parse_def sheet_pseudo_def sheet_unused_def sheet_mixed_def
        sheet_font_def sheet_two_fonts_def sheet_face_def sheet_p_def declaration_text_def)
  have sp: "strip_pseudo ''q'' = ''q''" by code_simp
  have w: "walkStyleRules (prune_rule (tag_engine doc_unused_style)) sheet_unused [] = Inr ([], [])"
    by (simp add: sheet_unused_def sp tag_engine_def querySelector_first_def
        doc_unused_style_def is_tag_def)
  have r: "reduce_sheet example_collaborators default_options ''q{color:blue}'' doc_unused_style
      = Inr ([], doc_unused_style)"
    by (simp add: reduce_sheet_def example_collaborators_def p w)
  have gone: "processStyle example_collaborators default_options 2 doc_unused_style =
     Inr \<lparr>roots = [Element 0 ''html'' [] None
        [Element 1 ''head'' [] None [],
         Element 4 ''body'' [] None [Element 5 ''p'' [] None []]]],
      nextId = 6\<rparr>"
    by (simp add: processStyle_element[OF f] style_text_def r js_trim_def)
       (simp add: doc_unused_style_def)
  have t: "style_text [TextNode 3 (Some ''q{color:blue}'')] = ''q{color:blue}''"
    by (simp add: style_text_def)
  from empty_style_untouched[OF e, of example_collaborators default_options]
  have first: "processStyle example_collaborators default_options 2 doc_empty_style
      = Inr doc_empty_style" by simp
  from empty_style_untouched[OF f, of example_collaborators default_options] gone
  have "\<exists>out d. reduce_sheet example_collaborators default_options
      (style_text [TextNode 3 (Some ''q{color:blue}'')]) doc_unused_style = Inr (out, d)
      \<and> js_trim out = []" by simp
  with first show ?thesis by (simp add: t)
qed

subsection \<open>Selectors that the engine rejects\<close>

lemma strip_pseudo_before: "strip_pseudo ''::before'' = []"
  by code_simp

lemma example_parse_pseudo: "example_parse ''::before{color:red}'' = Inr sheet_pseudo"
  by (simp add: example_parse_def sheet_pseudo_def declaration_text_def)

text \<open>
  Claim C4, as amended. The selector-matching step has no error handling of its own.
  For the sheet parsed from a \<open>style\<close> element: when the selector engine answers on
  every stripped selector, the walk raises nothing and keeps a selector exactly when
  an element is found; when the engine raises on one of them, the walk raises that
  error and so does \<open>processStyle\<close>.
\<close>

theorem selector_error_aborts:
  assumes "find_node style (roots doc) = Some (Element i t a s children)"
    and "children \<noteq> []" and "style_text children \<noteq> []"
    and "parseStylesheet c (style_text children) = Inr ast"
  shows "if (\<forall>sel \<in> set (all_selectors ast). engine_answers (querySelector c doc) sel)
     then (\<exists>criticalFonts. walkStyleRules (prune_rule (querySelector c doc)) ast []
              = Inr (pruned (selector_found (querySelector c doc)) ast, criticalFonts))
     else (\<exists>e. walkStyleRules (prune_rule (querySelector c doc)) ast [] = Inl e
              \<and> processStyle c opts style doc = Inl e)"
proof (cases "\<forall>sel \<in> set (all_selectors ast). engine_answers (querySelector c doc) sel")
  case True
  with prune_walk_answers(1)[OF True, of "[]"] show ?thesis by simp
next
  case False
  then have "\<exists>sel \<in> set (all_selectors ast). \<not> engine_answers (querySelector c doc) sel" by simp
  from prune_walk_raises(1)[OF this, of "[]"] obtain e where
    e: "walkStyleRules (prune_rule (querySelector c doc)) ast [] = Inl e" by blast
  with assms have "processStyle c opts style doc = Inl e"
    by (simp add: processStyle_element reduce_sheet_def)
  with e False show ?thesis by auto
qed

theorem selector_error_aborts_witness:
  "\<exists>e. walkStyleRules (prune_rule (tag_engine doc_pseudo_style)) sheet_pseudo [] = Inl e
     \<and> processStyle example_collaborators default_options 2 doc_pseudo_style = Inl e"
proof -
  have f: "find_node 2 (roots doc_pseudo_style)
      = Some (Element 2 ''style'' [] None [TextNode 3 (Some ''::before{color:red}'')])"
    by (simp add: doc_pseudo_style_def)
  have t: "style_text [TextNode 3 (Some ''::before{color:red}'')] = ''::before{color:red}''"
    by (simp add: style_text_def)
  have p: "parseStylesheet example_collaborators (style_text [TextNode 3 (Some ''::before{color:red}'')])
      = Inr sheet_pseudo"
    by (simp add: t example_collaborators_def example_parse_pseudo)
  have n: "\<not> (\<forall>sel \<in> set (all_selectors sheet_pseudo).
      engine_answers (querySelector example_collaborators doc_pseudo_style) sel)"
    by (simp add: sheet_pseudo_def engine_answers_def example_collaborators_def tag_engine_def
        strip_pseudo_before)
  have q: "querySelector example_collaborators doc_pseudo_style = tag_engine doc_pseudo_style"
    by (simp add: example_collaborators_def)
  from selector_error_aborts[OF f _ _ p, of default_options] n show ?thesis
    unfolding q by (auto simp: t split: if_splits)
qed

text \<open>
  Claim C4 as stated fails: the selector \<open>::before\<close> is stripped to the empty selector,
  the engine rejects it, and the whole \<open>process\<close> call is rejected.
\<close>

theorem malformed_selector_aborts_process:
  "process example_collaborators default_options Map.empty doc_pseudo_style
     = Inl (CollaboratorError ''empty selector'')"
proof -
  have l: "select_all is_stylesheet_link (roots doc_pseudo_style) = []"
    by (simp add: doc_pseudo_style_def is_stylesheet_link_def is_tag_def)
  have st: "select_all (is_tag ''style'') (roots doc_pseudo_style) = [2]"
    by (simp add: doc_pseudo_style_def is_tag_def)
  have f: "find_node 2 (roots doc_pseudo_style)
      = Some (Element 2 ''style'' [] None [TextNode 3 (Some ''::before{color:red}'')])"
    by (simp add: doc_pseudo_style_def)
  have w: "walkStyleRules (prune_rule (tag_engine doc_pseudo_style)) sheet_pseudo []
      = Inl (CollaboratorError ''empty selector'')"
    by (simp add: sheet_pseudo_def strip_pseudo_before tag_engine_def)
  have "processStyle example_collaborators default_options 2 doc_pseudo_style
      = Inl (CollaboratorError ''empty selector'')"
    by (simp add: processStyle_element[OF f] style_text_def reduce_sheet_def
        example_collaborators_def example_parse_pseudo w)
  then show ?thesis
    by (simp add: process_def default_options_def l st)
qed

subsection \<open>The strategy \<open>swap\<close>\<close>

lemma two_links_wf: "wf_doc doc_two_links"
  by (simp add: wf_doc_def doc_two_links_def)

lemma two_links_sited:
  "roots doc_two_links = plug in_head ([] @
      Element 2 ''link'' [(''rel'', Some ''stylesheet''), (''href'', Some ''/a.css'')] None []
      # [Element 3 ''link'' [(''rel'', Some ''stylesheet''), (''href'', Some ''/b.css'')] None []])"
  by (simp add: doc_two_links_def in_head_def)

lemma not_skipped: "skip_link (default_options\<lparr>preload := m\<rparr>) (Some ''/a.css'') = Inr False"
  by (simp add: skip_link_def default_options_def is_network_url_def starts_with_def)

text \<open>
  Claim C6, as amended. Under \<open>preload: "swap"\<close>, with \<open>noscriptFallback\<close> not
  \<open>false\<close>, a link that is not filtered out is rewritten where it stands: the link
  keeps its attributes and gets \<open>rel="preload"\<close>, \<open>as="style"\<close> and
  \<open>onload="this.rel='stylesheet'"\<close>; immediately after it stands a new \<open>noscript\<close>
  that wraps a \<open>link\<close> with \<open>rel="stylesheet"\<close>, the \<open>href\<close>, and the \<open>media\<close> of the
  link when that is not empty; immediately after the \<open>noscript\<close> stands the new
  \<open>style\<close> that holds the sheet (\<open>processStyle\<close> reduces it afterwards). The \<open>style\<close>
  follows the link, it does not precede it. Everything else is as it was.
\<close>

theorem swap_link_then_noscript_then_style:
  assumes "wf_doc doc"
    and "roots doc = plug p (pre @ Element link t a s cs # post)"
    and "href = getAttribute ''href'' (Element link t a s cs)"
    and "media = getAttribute ''media'' (Element link t a s cs)"
    and "skip_link opts href = Inr False"
    and "preload opts = PreloadStr ''swap''"
    and "noscriptFallback opts \<noteq> Some False"
  shows "embedLinkedStylesheet opts cssFiles link doc =
     Inr \<lparr>roots = plug p (pre
            @ Element link t
                (set_attr ''onload'' (Some (''this.rel='stylesheet'' @ [squote]))
                  (set_attr ''as'' (Some ''style'') (set_attr ''rel'' (Some ''preload'') a))) s cs
            # Element (nextId doc + 2) ''noscript'' [] None
                [Element (nextId doc + 3) ''link''
                   ([(''rel'', Some ''stylesheet''), (''href'', href)]
                    @ (if truthy media then [(''media'', media)] else [])) None []]
            # Element (nextId doc) ''style'' [] href
                [TextNode (nextId doc + 1) (cssFiles (property_key href))]
            # post),
          nextId = nextId doc + 4\<rparr>"
proof -
  note f = sited_facts[OF assms(1,2)]
  have fresh: "\<And>k. link \<noteq> nextId doc + k"
    using f(5) by (metis le_add1)
  have g: "link \<noteq> nextId doc" "link \<noteq> Suc (nextId doc)"
    using fresh[of 0] fresh[of 1] by simp_all
  have found: "find_node link (roots doc) = Some (Element link t a s cs)"
    by (rule find_node_sited[OF assms(1,2)])
  let ?style = "Element (nextId doc) ''style'' [] href
                [TextNode (Suc (nextId doc)) (cssFiles (property_key href))]"
  have d1: "inline_sheet link href (cssFiles (property_key href)) doc =
     \<lparr>roots = plug p (pre @ Element link t a s cs # ?style # post),
      nextId = Suc (Suc (nextId doc))\<rparr>"
    by (rule inline_sheet_sited[OF assms(1,2)])
  have up: "\<And>fn b. update_node link fn (plug p (pre @ Element link t b s cs # ?style # post))
      = plug p (pre @ fn (Element link t b s cs) # ?style # post)"
    using f(1-4) g by (simp add: update_node_plug update_node_first)
  have ins: "\<And>new b. insert_after link new (plug p (pre @ Element link t b s cs # ?style # post))
      = plug p (pre @ Element link t b s cs # new # ?style # post)"
    using f(1-4) g by (simp add: insert_after_plug insert_after_first)
  show ?thesis
    using found assms(5-7)
    by (simp add: embedLinkedStylesheet_def Let_def assms(3)[symmetric] assms(4)[symmetric] d1
        apply_strategy_def on_node_def up insert_noscript_def createElement_def insertAfter_def ins
        eval_nat_numeral del: getAttribute.simps)
qed


theorem swap_link_then_noscript_then_style_witness:
  "embedLinkedStylesheet (default_options\<lparr>preload := PreloadStr ''swap''\<rparr>) css_ab 2 doc_two_links =
     Inr \<lparr>roots = [Element 0 ''html'' [] None
        [Element 1 ''head'' [] None
           [Element 2 ''link'' [(''rel'', Some ''preload''), (''href'', Some ''/a.css''),
              (''as'', Some ''style''), (''onload'', Some (''this.rel='stylesheet'' @ [squote]))] None [],
            Element 8 ''noscript'' [] None
              [Element 9 ''link'' [(''rel'', Some ''stylesheet''), (''href'', Some ''/a.css'')] None []],
            Element 6 ''style'' [] (Some ''/a.css'') [TextNode 7 (Some ''p{color:red}'')],
            Element 3 ''link'' [(''rel'', Some ''stylesheet''), (''href'', Some ''/b.css'')] None []],
         Element 4 ''body'' [] None [Element 5 ''p'' [] None []]]],
      nextId = 10\<rparr>"
proof -
  have h: "Some ''/a.css'' = getAttribute ''href''
      (Element 2 ''link'' [(''rel'', Some ''stylesheet''), (''href'', Some ''/a.css'')] None [])"
    by simp
  have m: "None = getAttribute ''media''
      (Element 2 ''link'' [(''rel'', Some ''stylesheet''), (''href'', Some ''/a.css'')] None [])"
    by simp
  have o: "preload (default_options\<lparr>preload := PreloadStr ''swap''\<rparr>) = PreloadStr ''swap''"
    "noscriptFallback (default_options\<lparr>preload := PreloadStr ''swap''\<rparr>) \<noteq> Some False"
    by (simp_all add: default_options_def)
  show ?thesis
    using swap_link_then_noscript_then_style[OF two_links_wf two_links_sited h m not_skipped o, of css_ab]
    by (simp add: in_head_def doc_two_links_def css_ab_def property_key_def truthy_def)
qed

text \<open>
  Claim C6 as stated fails on the order: in the document that \<open>process\<close> returns
  for two links under \<open>preload: "swap"\<close>, the \<open>style\<close> with the critical CSS of
  \<open>/a.css\<close> comes after its link and after the \<open>noscript\<close>, not before the link.
\<close>

theorem swap_style_follows_link:
  "process example_collaborators (default_options\<lparr>preload := PreloadStr ''swap''\<rparr>) css_ab doc_two_links =
     Inr \<lparr>roots = [Element 0 ''html'' [] None
        [Element 1 ''head'' [] None
           [Element 2 ''link'' [(''rel'', Some ''preload''), (''href'', Some ''/a.css''),
              (''as'', Some ''style''), (''onload'', Some (''this.rel='stylesheet'' @ [squote]))] None [],
            Element 8 ''noscript'' [] None
              [Element 9 ''link'' [(''rel'', Some ''stylesheet''), (''href'', Some ''/a.css'')] None []],
            Element 6 ''style'' [] (Some ''/a.css'') [TextNode 14 (Some ''p{color:red}'')],
            Element 3 ''link'' [(''rel'', Some ''preload''), (''href'', Some ''/b.css''),
              (''as'', Some ''style''), (''onload'', Some (''this.rel='stylesheet'' @ [squote]))] None [],
            Element 12 ''noscript'' [] None
              [Element 13 ''link'' [(''rel'', Some ''stylesheet''), (''href'', Some ''/b.css'')] None []]],
         Element 4 ''body'' [] None [Element 5 ''p'' [] None []]]],
      nextId = 15\<rparr>"
  by code_simp

subsection \<open>A stylesheet that \<open>cssFiles\<close> does not hold\<close>

lemma select_all_append: "select_all P (xs @ ys) = select_all P xs @ select_all P ys"
  by (induction xs) auto

lemma is_tag_element: "is_tag g (Element i t a s cs) = (t = g)"
  by (simp add: is_tag_def)

lemma select_tag_plug:
  "(select_all (is_tag g) xs \<noteq> [] \<Longrightarrow> select_all (is_tag g) ys \<noteq> [])
   \<Longrightarrow> select_all (is_tag g) (plug p xs) \<noteq> [] \<Longrightarrow> select_all (is_tag g) (plug p ys) \<noteq> []"
proof (induction p arbitrary: xs ys)
  case Top
  then show ?case by simp
next
  case (Inside i t a s left p right)
  have "select_all (is_tag g) (left @ Element i t a s xs # right) \<noteq> []
      \<Longrightarrow> select_all (is_tag g) (left @ Element i t a s ys # right) \<noteq> []"
    using Inside.prems(1) by (auto simp: select_all_append is_tag_element)
  from Inside.IH[OF this] Inside.prems(2) show ?case by simp
qed

lemma body_stays:
  assumes "querySelector_first (is_tag g) \<lparr>roots = plug p (pre @ Element l t a s cs # post), nextId = n\<rparr> \<noteq> None"
  shows "querySelector_first (is_tag g)
      \<lparr>roots = plug p (pre @ Element l t a' s cs # new # post), nextId = n'\<rparr> \<noteq> None"
proof -
  have "select_all (is_tag g) (pre @ Element l t a s cs # post) \<noteq> []
      \<Longrightarrow> select_all (is_tag g) (pre @ Element l t a' s cs # new # post) \<noteq> []"
    by (auto simp: select_all_append is_tag_element)
  from select_tag_plug[OF this] assms show ?thesis
    by (auto simp: querySelector_first_def split: list.splits)
qed

text \<open>
  Claim C3, as amended. A link whose \<open>href\<close> is not a key of \<open>cssFiles\<close>, and
  which is not filtered out, is not skipped: \<open>embedLinkedStylesheet\<close> inserts
  immediately after it a \<open>style\<close> element whose text node carries \<open>undefined\<close>, and
  unless \<open>preload\<close> is \<open>false\<close> it goes on to the strategy that \<open>options.preload\<close>
  selects and to the \<open>noscript\<close> fallback, as for any other link. The missing entry
  raises nothing: in a document that has a \<open>body\<close> the call returns, and the document
  it returns is not the one it was given.
\<close>

theorem missing_sheet_not_skipped:
  assumes "wf_doc doc"
    and "roots doc = plug p (pre @ Element link t a s cs # post)"
    and "getAttribute ''href'' (Element link t a s cs) = Some href"
    and "media = getAttribute ''media'' (Element link t a s cs)"
    and "cssFiles href = None"
    and "skip_link opts (Some href) = Inr False"
    and "inlined = \<lparr>roots = plug p (pre @ Element link t a s cs
            # Element (nextId doc) ''style'' [] (Some href) [TextNode (nextId doc + 1) None]
            # post),
          nextId = nextId doc + 2\<rparr>"
  shows "embedLinkedStylesheet opts cssFiles link doc =
           (if preload opts = PreloadFalse then Inr inlined
            else case apply_strategy (preload opts) link (Some href) media inlined of
                   Inl e \<Rightarrow> Inl e
                 | Inr (fallback, d) \<Rightarrow>
                     if noscriptFallback opts \<noteq> Some False \<and> fallback
                     then Inr (insert_noscript link (Some href) media d) else Inr d)
    \<and> (querySelector_first (is_tag ''body'') doc \<noteq> None
         \<longrightarrow> (\<exists>d. embedLinkedStylesheet opts cssFiles link doc = Inr d \<and> d \<noteq> doc))"
proof -
  note f = sited_facts[OF assms(1,2)]
  have fresh: "\<And>k. link \<noteq> nextId doc + k"
    using f(5) by (metis le_add1)
  have g: "link \<noteq> nextId doc" "link \<noteq> Suc (nextId doc)"
    using fresh[of 0] fresh[of 1] by simp_all
  have found: "find_node link (roots doc) = Some (Element link t a s cs)"
    by (rule find_node_sited[OF assms(1,2)])
  let ?style = "Element (nextId doc) ''style'' [] (Some href) [TextNode (Suc (nextId doc)) None]"
  have d1: "inline_sheet link (Some href) None doc = inlined"
    using inline_sheet_sited[OF assms(1,2), of "Some href" None] assms(7) by simp
  have first: "embedLinkedStylesheet opts cssFiles link doc =
           (if preload opts = PreloadFalse then Inr inlined
            else case apply_strategy (preload opts) link (Some href) media inlined of
                   Inl e \<Rightarrow> Inl e
                 | Inr (fallback, d) \<Rightarrow>
                     if noscriptFallback opts \<noteq> Some False \<and> fallback
                     then Inr (insert_noscript link (Some href) media d) else Inr d)"
    using found assms(5,6)
    by (simp add: embedLinkedStylesheet_def Let_def assms(3) assms(4)[symmetric] d1
        property_key_def del: getAttribute.simps)
  have up: "\<And>fn b. update_node link fn (plug p (pre @ Element link t b s cs # ?style # post))
      = plug p (pre @ fn (Element link t b s cs) # ?style # post)"
    using f(1-4) g by (simp add: update_node_plug update_node_first)
  have second: "\<exists>d. embedLinkedStylesheet opts cssFiles link doc = Inr d \<and> d \<noteq> doc"
    if body: "querySelector_first (is_tag ''body'') doc \<noteq> None"
  proof -
    have grow: "nextId doc < nextId inlined" using assms(7) by simp
    have doc_eq: "doc = \<lparr>roots = plug p (pre @ Element link t a s cs # post), nextId = nextId doc\<rparr>"
      using assms(2) by simp
    have b1: "\<And>a' n'. querySelector_first (is_tag ''body'')
        \<lparr>roots = plug p (pre @ Element link t a' s cs # ?style # post), nextId = n'\<rparr> \<noteq> None"
      using body_stays[of "''body''" p pre link t a s cs post "nextId doc"] body doc_eq by metis
    have found1: "find_node link (roots inlined) = Some (Element link t a s cs)"
      using f(1,2) assms(7) by (simp add: find_node_plug find_node_here)
    have "\<exists>fallback d. apply_strategy (preload opts) link (Some href) media inlined = Inr (fallback, d)
        \<and> nextId inlined \<le> nextId d"
      using found1
      by (auto simp: apply_strategy_def move_to_body_def Let_def on_node_def assms(7) up
          insert_script_def createElement_def createTextNode_def insertAfter_def
          append_body_link_def append_new_def b1
          split: option.splits)
    then obtain fallback d where
      ap: "apply_strategy (preload opts) link (Some href) media inlined = Inr (fallback, d)"
      and le: "nextId inlined \<le> nextId d" by blast
    have "nextId d \<le> nextId (insert_noscript link (Some href) media d)"
      by (simp add: insert_noscript_def createElement_def insertAfter_def Let_def)
    with first ap le grow show ?thesis
      by (cases "preload opts = PreloadFalse") auto
  qed
  from first second show ?thesis by blast
qed


theorem missing_sheet_not_skipped_witness:
  "\<exists>d. embedLinkedStylesheet default_options Map.empty 2 doc_two_links = Inr d \<and> d \<noteq> doc_two_links"
proof -
  have h: "getAttribute ''href''
      (Element 2 ''link'' [(''rel'', Some ''stylesheet''), (''href'', Some ''/a.css'')] None [])
      = Some ''/a.css''"
    by simp
  have b: "querySelector_first (is_tag ''body'') doc_two_links \<noteq> None"
    by (simp add: querySelector_first_def doc_two_links_def is_tag_def)
  have s: "skip_link default_options (Some ''/a.css'') = Inr False"
    by (simp add: skip_link_def default_options_def is_network_url_def starts_with_def)
  from missing_sheet_not_skipped[OF two_links_wf two_links_sited h refl _ s refl, of Map.empty] b
  show ?thesis by blast
qed

text \<open>
  Claim C3 as stated fails: with an empty \<open>cssFiles\<close> and default options, the first
  link of the document gets a \<open>style\<close> with \<open>undefined\<close> as its text, is turned into a
  preload, and a second link is appended to \<open>body\<close>.
\<close>

theorem missing_sheet_inlined_and_rewritten:
  "embedLinkedStylesheet default_options Map.empty 2 doc_two_links =
     Inr \<lparr>roots = [Element 0 ''html'' [] None
        [Element 1 ''head'' [] None
           [Element 2 ''link'' [(''rel'', Some ''preload''), (''href'', Some ''/a.css''),
              (''as'', Some ''style'')] None [],
            Element 6 ''style'' [] (Some ''/a.css'') [TextNode 7 None],
            Element 3 ''link'' [(''rel'', Some ''stylesheet''), (''href'', Some ''/b.css'')] None []],
         Element 4 ''body'' [] None
           [Element 5 ''p'' [] None [],
            Element 8 ''link'' [(''rel'', Some ''stylesheet''), (''href'', Some ''/a.css'')] None []]]],
      nextId = 9\<rparr>
   \<and> embedLinkedStylesheet default_options Map.empty 2 doc_two_links \<noteq> Inr doc_two_links"
  by code_simp

subsection \<open>The second walk: font preloads\<close>

lemma new_urls_append:
  "new_urls seen (xs @ ys) = new_urls seen xs @ new_urls (seen @ new_urls seen xs) ys"
  by (induction xs arbitrary: seen) auto

lemma new_urls_distinct: "distinct (new_urls seen us) \<and> set (new_urls seen us) = set us - set seen"
  by (induction us arbitrary: seen) auto

lemma preload_links_append:
  "preload_links n (xs @ ys) = preload_links n xs @ preload_links (n + length xs) ys"
  by (simp add: preload_links_def enumerate_append_eq)

lemma ids_preload_links: "i \<in> set (ids (preload_links n us)) \<Longrightarrow> n \<le> i"
proof (induction us arbitrary: n)
  case Nil
  then show ?case by (simp add: preload_links_def)
next
  case (Cons u us)
  from Cons.prems have "i = n \<or> i \<in> set (ids (preload_links (Suc n) us))"
    by (auto simp: preload_links_def preload_link_def)
  with Cons.IH[of "Suc n"] show ?case by auto
qed

lemma append_preload_sited:
  assumes "h \<notin> set (position_ids p)" "h \<notin> set (ids pre)" "h \<notin> set (ids cs)" "h \<notin> set (ids post)"
  shows "append_preload (Some h) u \<lparr>roots = plug p (pre @ Element h t a s cs # post), nextId = n\<rparr>
     = Inr \<lparr>roots = plug p (pre @ Element h t a s (cs @ [preload_link n u]) # post), nextId = Suc n\<rparr>"
  using assms
  by (simp add: append_preload_def createElement_def append_new_def preload_link_def
      update_node_plug update_node_first)


lemma font_rule_sited:
  assumes "h \<notin> set (position_ids p)" "h \<notin> set (ids pre)" "h \<notin> set (ids cs)" "h \<notin> set (ids post)"
    and "shouldPreloadFonts opts"
  shows "\<exists>keep. font_rule opts (Some h) cf r
        (\<lparr>roots = plug p (pre @ Element h t a s cs # post), nextId = n\<rparr>, seen)
     = Inr (r, keep,
        (\<lparr>roots = plug p (pre @ Element h t a s
              (cs @ preload_links n (new_urls seen (case r of FontFaceRule decls \<Rightarrow> rule_srcs r | _ \<Rightarrow> []))) # post),
          nextId = n + length (new_urls seen (case r of FontFaceRule decls \<Rightarrow> rule_srcs r | _ \<Rightarrow> []))\<rparr>,
         seen @ new_urls seen (case r of FontFaceRule decls \<Rightarrow> rule_srcs r | _ \<Rightarrow> [])))"
proof (cases r)
  case (FontFaceRule decls)
  obtain family src where fi: "font_info decls (None, None) = (family, src)"
    by (cases "font_info decls (None, None)")
  show ?thesis
  proof (cases src)
    case None
    with FontFaceRule fi show ?thesis by (simp add: preload_links_def)
  next
    case (Some u)
    show ?thesis
    proof (cases "u \<noteq> [] \<and> u \<notin> set seen")
      case True
      with FontFaceRule fi Some assms(5) append_preload_sited[OF assms(1-4), of u t a s n]
      show ?thesis by (simp add: preload_links_def)
    next
      case False
      with FontFaceRule fi Some show ?thesis by (auto simp: preload_links_def)
    qed
  qed
qed (auto simp: preload_links_def)


lemma advance_nil: "advance st [] = st"
  by (cases st) (simp add: preload_links_def)

lemma advance_append: "advance st (us @ vs) = advance (advance st us) vs"
  by (cases st) (simp add: new_urls_append preload_links_append add.assoc)

lemma head_free_advance: "head_free h st \<Longrightarrow> head_free h (advance st us)"
  using ids_preload_links by (cases st) (fastforce simp: ids_append)

lemma font_rule_advance:
  assumes "h \<notin> set (position_ids p)" "h \<notin> set (ids pre)" "h \<notin> set (ids post)"
    and "shouldPreloadFonts opts" and "head_free h st"
  shows "\<exists>keep. font_rule opts (Some h) cf r (head_state (\<lambda>cs. plug p (pre @ Element h t a s cs # post)) st)
     = Inr (r, keep, head_state (\<lambda>cs. plug p (pre @ Element h t a s cs # post))
         (advance st (case r of FontFaceRule decls \<Rightarrow> rule_srcs r | _ \<Rightarrow> [])))"
proof -
  obtain cs n seen where st: "st = (cs, n, seen)" by (cases st)
  with assms(5) have "h \<notin> set (ids cs)" by simp
  from font_rule_sited[OF assms(1,2) this assms(3,4), of cf r t a s n seen] st
  show ?thesis by simp
qed

lemma font_walk_advance:
  assumes "h \<notin> set (position_ids p)" "h \<notin> set (ids pre)" "h \<notin> set (ids post)"
    and "shouldPreloadFonts opts"
  shows "head_free h st \<Longrightarrow>
      \<exists>rs'. walkStyleRules (font_rule opts (Some h) cf) rs
               (head_state (\<lambda>cs. plug p (pre @ Element h t a s cs # post)) st)
         = Inr (rs', head_state (\<lambda>cs. plug p (pre @ Element h t a s cs # post)) (advance st (font_srcs rs)))"
    and "head_free h st \<Longrightarrow>
      \<exists>r'. walk_nested (font_rule opts (Some h) cf) r
               (head_state (\<lambda>cs. plug p (pre @ Element h t a s cs # post)) st)
         = Inr (r', head_state (\<lambda>cs. plug p (pre @ Element h t a s cs # post))
                  (advance st (case r of ContainerRule rs \<Rightarrow> font_srcs rs | _ \<Rightarrow> [])))
        \<and> (case r of ContainerRule rs \<Rightarrow> (\<exists>rs'. r' = ContainerRule rs') | _ \<Rightarrow> r' = r)"
proof (induction rs and r arbitrary: st and st rule: font_srcs_rule_srcs.induct)
  case 1
  then show ?case by (simp add: advance_nil)
next
  case (2 r rs)
  let ?H = "head_state (\<lambda>cs. plug p (pre @ Element h t a s cs # post))"
  let ?nested = "case r of ContainerRule rs \<Rightarrow> font_srcs rs | _ \<Rightarrow> []"
  let ?own = "case r of FontFaceRule decls \<Rightarrow> rule_srcs r | _ \<Rightarrow> []"
  from "2.IH"(1)[OF "2.prems"] obtain r1 where
    n: "walk_nested (font_rule opts (Some h) cf) r (?H st) = Inr (r1, ?H (advance st ?nested))"
    and shape: "case r of ContainerRule rs \<Rightarrow> (\<exists>rs'. r1 = ContainerRule rs') | _ \<Rightarrow> r1 = r"
    by blast
  have own1: "(case r1 of FontFaceRule decls \<Rightarrow> rule_srcs r1 | _ \<Rightarrow> []) = ?own"
    using shape by (cases r) auto
  have f1: "head_free h (advance st ?nested)"
    using "2.prems" by (rule head_free_advance)
  from font_rule_advance[OF assms f1, of cf r1 t a s] own1 obtain keep where
    i: "font_rule opts (Some h) cf r1 (?H (advance st ?nested))
        = Inr (r1, keep, ?H (advance (advance st ?nested) ?own))"
    by auto
  have f2: "head_free h (advance (advance st ?nested) ?own)"
    using f1 by (rule head_free_advance)
  from "2.IH"(2)[OF f2] obtain rs2 where
    w: "walkStyleRules (font_rule opts (Some h) cf) rs (?H (advance (advance st ?nested) ?own))
        = Inr (rs2, ?H (advance (advance (advance st ?nested) ?own) (font_srcs rs)))"
    by blast
  have split: "rule_srcs r = ?nested @ ?own" by (cases r) auto
  have total: "advance (advance (advance st ?nested) ?own) (font_srcs rs)
      = advance st (font_srcs (r # rs))"
    by (simp add: split advance_append)
  obtain d3 seen3 where e: "?H (advance st (font_srcs (r # rs))) = (d3, seen3)"
    by (cases "?H (advance st (font_srcs (r # rs)))")
  obtain d1 seen1 where e1: "?H (advance st ?nested) = (d1, seen1)"
    by (cases "?H (advance st ?nested)")
  obtain d2 seen2 where e2: "?H (advance (advance st ?nested) ?own) = (d2, seen2)"
    by (cases "?H (advance (advance st ?nested) ?own)")
  from n i w show ?case
    unfolding total e e1 e2 by (cases keep) auto
next
  case (3 sels decls)
  then show ?case by (simp add: advance_nil)
next
  case (4 decls)
  then show ?case by (simp add: advance_nil)
next
  case (5 rs)
  from "5.IH"[OF "5.prems"] obtain rs' where
    "walkStyleRules (font_rule opts (Some h) cf) rs
        (head_state (\<lambda>cs. plug p (pre @ Element h t a s cs # post)) st)
      = Inr (rs', head_state (\<lambda>cs. plug p (pre @ Element h t a s cs # post)) (advance st (font_srcs rs)))"
    by blast
  then show ?case
    by (cases "head_state (\<lambda>cs. plug p (pre @ Element h t a s cs # post)) (advance st (font_srcs rs))") auto
next
  case (6 t)
  then show ?case by (simp add: advance_nil)
qed


text \<open>
  Claim C7, as amended. Within one second walk, that is within one call of
  \<open>processStyle\<close> on one \<open>style\<close> element, with \<open>fonts === true\<close> or
  \<open>preloadFonts === true\<close>: for the font-face rules of the sheet, exactly one
  \<open>link rel="preload" as="font"\<close> is appended to \<open>head\<close> for each distinct \<open>src\<close> URL
  as the pattern extracts it (compared before it is trimmed), in the order of first
  occurrence; its \<open>href\<close> is the trimmed URL and it carries
  \<open>crossorigin="anonymous"\<close> exactly when the URL contains \<open>://\<close>. Nothing else in the
  document changes. The list of preloaded URLs starts empty in every call: it is not
  shared between the \<open>style\<close> elements of one run.
\<close>

theorem font_preloads_once_per_walk:
  assumes "wf_doc doc"
    and "roots doc = plug p (pre @ Element head t a s cs # post)"
    and "shouldPreloadFonts opts"
    and "urls = first_occurrences (font_srcs ast)"
  shows "(\<exists>ast'. walkStyleRules (font_rule opts (Some head) criticalFonts) ast (doc, []) =
       Inr (ast',
         (\<lparr>roots = plug p (pre @ Element head t a s (cs @ preload_links (nextId doc) urls) # post),
           nextId = nextId doc + length urls\<rparr>,
          urls)))
    \<and> distinct urls \<and> set urls = set (font_srcs ast)"
proof -
  note f = sited_facts[OF assms(1,2)]
  have "head \<in> set (ids (roots doc))"
    using assms(2) by (simp add: plug_ids ids_append)
  with assms(1) have "head < nextId doc" by (simp add: wf_doc_def)
  with f(3) have free: "head_free head (cs, nextId doc, [])" by simp
  have doc_eq: "doc = \<lparr>roots = plug p (pre @ Element head t a s cs # post), nextId = nextId doc\<rparr>"
    using assms(2) by simp
  from font_walk_advance(1)[OF f(1,2,4) assms(3) free, of criticalFonts ast t a s]
  obtain ast' where "walkStyleRules (font_rule opts (Some head) criticalFonts) ast
      (\<lparr>roots = plug p (pre @ Element head t a s cs # post), nextId = nextId doc\<rparr>, [])
    = Inr (ast', head_state (\<lambda>cs. plug p (pre @ Element head t a s cs # post))
        (advance (cs, nextId doc, []) (font_srcs ast)))"
    by auto
  with doc_eq have "walkStyleRules (font_rule opts (Some head) criticalFonts) ast (doc, []) =
       Inr (ast',
         (\<lparr>roots = plug p (pre @ Element head t a s (cs @ preload_links (nextId doc) urls) # post),
           nextId = nextId doc + length urls\<rparr>,
          urls))"
    by (simp add: assms(4) first_occurrences_def)
  moreover have "distinct urls \<and> set urls = set (font_srcs ast)"
    using new_urls_distinct[of "[]" "font_srcs ast"] by (simp add: assms(4) first_occurrences_def)
  ultimately show ?thesis by blast
qed

theorem font_preloads_once_per_walk_witness:
  "\<exists>ast'. walkStyleRules (font_rule (default_options\<lparr>preloadFonts := Some True\<rparr>) (Some 1) [])
       sheet_two_fonts (doc_two_links, []) =
     Inr (ast',
       (\<lparr>roots = [Element 0 ''html'' [] None
          [Element 1 ''head'' [] None
             [Element 2 ''link'' [(''rel'', Some ''stylesheet''), (''href'', Some ''/a.css'')] None [],
              Element 3 ''link'' [(''rel'', Some ''stylesheet''), (''href'', Some ''/b.css'')] None [],
              Element 6 ''link'' [(''rel'', Some ''preload''), (''as'', Some ''font''),
                 (''crossorigin'', Some ''anonymous''),
                 (''href'', Some ''https://cdn.example/x.woff2'')] None [],
              Element 7 ''link'' [(''rel'', Some ''preload''), (''as'', Some ''font''),
                 (''href'', Some ''y.woff2'')] None []],
           Element 4 ''body'' [] None [Element 5 ''p'' [] None []]]],
         nextId = 8\<rparr>,
        [''https://cdn.example/x.woff2'', ''y.woff2'']))"
proof -
  have w: "wf_doc doc_two_links"
    by (simp add: wf_doc_def doc_two_links_def)
  have r: "roots doc_two_links = plug in_html ([] @ Element 1 ''head'' [] None
      [Element 2 ''link'' [(''rel'', Some ''stylesheet''), (''href'', Some ''/a.css'')] None [],
       Element 3 ''link'' [(''rel'', Some ''stylesheet''), (''href'', Some ''/b.css'')] None []]
      # [Element 4 ''body'' [] None [Element 5 ''p'' [] None []]])"
    by (simp add: doc_two_links_def in_html_def)
  have s: "shouldPreloadFonts (default_options\<lparr>preloadFonts := Some True\<rparr>)"
    by (simp add: shouldPreloadFonts_def)
  have u: "[''https://cdn.example/x.woff2'', ''y.woff2''] = first_occurrences (font_srcs sheet_two_fonts)"
    by code_simp
  have pl: "preload_links 6 [''https://cdn.example/x.woff2'', ''y.woff2''] =
      [Element 6 ''link'' [(''rel'', Some ''preload''), (''as'', Some ''font''),
                 (''crossorigin'', Some ''anonymous''),
                 (''href'', Some ''https://cdn.example/x.woff2'')] None [],
       Element 7 ''link'' [(''rel'', Some ''preload''), (''as'', Some ''font''),
                 (''href'', Some ''y.woff2'')] None []]"
    by code_simp
  have n: "nextId doc_two_links = 6" by (simp add: doc_two_links_def)
  from font_preloads_once_per_walk[OF w r s u, of "[]"] show ?thesis
    by (simp add: n pl in_html_def)
qed

text \<open>
  Claim C7 as stated fails: one run over a document with two \<open>style\<close> elements
  that declare the same font URL, with \<open>preloadFonts: true\<close>, appends two preload
  links for that URL to \<open>head\<close>.
\<close>

theorem font_preloaded_twice_in_one_run:
  "process example_collaborators (default_options\<lparr>preloadFonts := Some True\<rparr>) Map.empty
       doc_two_font_styles =
     Inr \<lparr>roots = [Element 0 ''html'' [] None
        [Element 1 ''head'' [] None
           [Element 8 ''link'' [(''rel'', Some ''preload''), (''as'', Some ''font''),
              (''href'', Some ''x.woff2'')] None [],
            Element 9 ''link'' [(''rel'', Some ''preload''), (''as'', Some ''font''),
              (''href'', Some ''x.woff2'')] None []],
         Element 6 ''body'' [] None [Element 7 ''p'' [] None []]]],
      nextId = 10\<rparr>"
  by code_simp

subsection \<open>The loader script\<close>

text \<open>
  Claim C1 fails on the code. The variable \<open>cssLoaderPreamble\<close> is initialised in
  every call of \<open>embedLinkedStylesheet\<close>, so the assignment of line 159 reaches no
  later call: under \<open>preload: "js"\<close> the script of the second link holds the
  definition of \<open>$loadcss\<close> as the script of the first link does.
\<close>

theorem loader_emitted_for_every_link:
  "process example_collaborators (default_options\<lparr>preload := PreloadStr ''js''\<rparr>) css_ab doc_two_links =
     Inr \<lparr>roots = [Element 0 ''html'' [] None
        [Element 1 ''head'' [] None
           [Element 2 ''link'' [(''rel'', Some ''preload''), (''href'', Some ''/a.css''), (''as'', Some ''style'')] None [],
            Element 10 ''noscript'' [] None
              [Element 11 ''link'' [(''rel'', Some ''stylesheet''), (''href'', Some ''/a.css'')] None []],
            Element 8 ''script'' [] None
              [TextNode 9 (Some (loader_source @ ''$loadcss('' @ [dquote] @ ''/a.css'' @ [dquote] @ '')''))],
            Element 6 ''style'' [] (Some ''/a.css'') [TextNode 18 (Some ''p{color:red}'')],
            Element 3 ''link'' [(''rel'', Some ''preload''), (''href'', Some ''/b.css''), (''as'', Some ''style'')] None [],
            Element 16 ''noscript'' [] None
              [Element 17 ''link'' [(''rel'', Some ''stylesheet''), (''href'', Some ''/b.css'')] None []],
            Element 14 ''script'' [] None
              [TextNode 15 (Some (loader_source @ ''$loadcss('' @ [dquote] @ ''/b.css'' @ [dquote] @ '')''))]],
         Element 4 ''body'' [] None [Element 5 ''p'' [] None []]]],
      nextId = 19\<rparr>"
  by code_simp

subsection \<open>The font flags\<close>

lemma font_flags_unset:
  "shouldInlineFonts default_options" "\<not> shouldPreloadFonts default_options"
  "shouldInlineFonts (default_options\<lparr>fonts := Some False, inlineFonts := Some True\<rparr>)"
  by (simp_all add: shouldInlineFonts_def shouldPreloadFonts_def default_options_def)

text \<open>
  Claim C2 fails on the code. With no font option set, inlining is on and preloading
  is off: the font-face rule of a used family stays in the critical CSS and no preload
  link is appended to \<open>head\<close>. With \<open>fonts: false\<close> and \<open>inlineFonts: true\<close>, the rule
  stays as well.
\<close>

theorem fonts_inlined_and_not_preloaded_by_default:
  "process example_collaborators default_options Map.empty doc_font_style =
     Inr \<lparr>roots = [Element 0 ''html'' [] None
        [Element 1 ''head'' [] None
           [Element 2 ''style'' [] None
              [TextNode 6 (Some ''@font-face{font-family:X;src:url(x.woff2)}p{font-family:X}'')]],
         Element 4 ''body'' [] None [Element 5 ''p'' [] None []]]],
      nextId = 7\<rparr>
   \<and> process example_collaborators
       (default_options\<lparr>fonts := Some False, inlineFonts := Some True\<rparr>) Map.empty doc_font_style =
     Inr \<lparr>roots = [Element 0 ''html'' [] None
        [Element 1 ''head'' [] None
           [Element 2 ''style'' [] None
              [TextNode 6 (Some ''@font-face{font-family:X;src:url(x.woff2)}p{font-family:X}'')]],
         Element 4 ''body'' [] None [Element 5 ''p'' [] None []]]],
      nextId = 7\<rparr>"
  by code_simp

end
